theory Spec2Isabelle
  imports Complex_Main "HOL-Library.AList"
begin

section \<open>JavaScript values as they reach the synchroniser\<close>

text \<open>
  The program (\<^verbatim>\<open>src/sync.js\<close>) mirrors the MongoDB collection \<^verbatim>\<open>prices\<close> into a
  Meilisearch index. The values it handles are what the MongoDB driver hands to
  JavaScript: primitives, \<^verbatim>\<open>ObjectId\<close> and \<^verbatim>\<open>Date\<close> objects, arrays and embedded
  documents.

  A JavaScript number is an IEEE double. Every double is \<^verbatim>\<open>NaN\<close>, an infinity, the
  negative zero or a rational, and the program never does arithmetic on a number: it
  only tests it for truthiness, copies it, prints it or turns it into a time value.
  So a number is modelled by its exact value.
\<close>

datatype jsnum = NaN | PosInf | NegInf | NegZero | Fin rat

datatype jsval =
    Undefined
  | Null
  | Boolean bool
  | Num jsnum
  | Str string
  | ObjectId string
  | DateObj "int option"
  | Arr "jsval list"
  | Obj "(string \<times> jsval) list"

text \<open>
  \<open>ObjectId h\<close> is an ObjectId whose \<^verbatim>\<open>toString()\<close> is the hex string \<open>h\<close>.
  \<open>DateObj t\<close> is a \<^verbatim>\<open>Date\<close> object with time value \<open>t\<close> in milliseconds, \<open>None\<close> for
  an invalid date (time value \<^verbatim>\<open>NaN\<close>). \<open>Obj kvs\<close> is an embedded document, a plain
  object with the own properties \<open>kvs\<close>; a source record is one of these.
\<close>

type_synonym doc = "(string \<times> jsval) list"

text \<open>Property access \<^verbatim>\<open>doc.Name\<close>: the value of an absent property is \<^verbatim>\<open>undefined\<close>.\<close>

definition property :: "doc \<Rightarrow> string \<Rightarrow> jsval" where
  "property d k = (case map_of d k of None \<Rightarrow> Undefined | Some v \<Rightarrow> v)"

text \<open>
  Truthiness, as \<^verbatim>\<open>||\<close>, \<^verbatim>\<open>? :\<close>, \<^verbatim>\<open>if\<close> and \<^verbatim>\<open>filter(Boolean)\<close> test it: the falsy values
  are \<^verbatim>\<open>undefined\<close>, \<^verbatim>\<open>null\<close>, \<^verbatim>\<open>false\<close>, \<^verbatim>\<open>0\<close>, \<^verbatim>\<open>-0\<close>, \<^verbatim>\<open>NaN\<close> and the empty string;
  every object is truthy.
\<close>

fun truthy :: "jsval \<Rightarrow> bool" where
  "truthy Undefined = False"
| "truthy Null = False"
| "truthy (Boolean x) = x"
| "truthy (Num n) = (n \<noteq> NaN \<and> n \<noteq> NegZero \<and> n \<noteq> Fin 0)"
| "truthy (Str s) = (s \<noteq> [])"
| "truthy (ObjectId h) = True"
| "truthy (DateObj t) = True"
| "truthy (Arr xs) = True"
| "truthy (Obj kvs) = True"

text \<open>\<^verbatim>\<open>a || d\<close>\<close>

definition js_or :: "jsval \<Rightarrow> jsval \<Rightarrow> jsval" where
  "js_or a d = (if truthy a then a else d)"

text \<open>\<^verbatim>\<open>typeof c === 'object'\<close>: true of \<^verbatim>\<open>null\<close> as well as of every object.\<close>

fun typeof_object :: "jsval \<Rightarrow> bool" where
  "typeof_object Null = True"
| "typeof_object (ObjectId h) = True"
| "typeof_object (DateObj t) = True"
| "typeof_object (Arr xs) = True"
| "typeof_object (Obj kvs) = True"
| "typeof_object v = False"

subsection \<open>Built-ins of the engine\<close>

text \<open>
  Three functions of the JavaScript engine are used and not defined by the program:
  how a number prints, how a \<^verbatim>\<open>Date\<close> prints (which depends on the time zone), and
  \<^verbatim>\<open>Date.parse\<close> (whose result on a string that is not in the ISO format is left to
  the engine; \<open>None\<close> is \<^verbatim>\<open>NaN\<close>). They are parameters of the model.
\<close>

record builtins =
  number_toString :: "jsnum \<Rightarrow> string"
  date_toString :: "int option \<Rightarrow> string"
  date_parse :: "string \<Rightarrow> int option"

text \<open>
  What is thrown: a TypeError of the engine, or an error reported by one of the two
  services (MongoDB, Meilisearch), with its message.
\<close>

datatype js_error = TypeError | ServiceError string

text \<open>
  Evaluating a list of computations from left to right: the first one that throws
  ends the evaluation.
\<close>

fun collect :: "('e + 'a) list \<Rightarrow> 'e + 'a list" where
  "collect [] = Inr []"
| "collect (Inl err # rs) = Inl err"
| "collect (Inr x # rs) = (case collect rs of Inl err \<Rightarrow> Inl err | Inr xs \<Rightarrow> Inr (x # xs))"

text \<open>\<^verbatim>\<open>Array.prototype.join\<close> with the separator \<^verbatim>\<open>","\<close>.\<close>

fun join_comma :: "string list \<Rightarrow> string" where
  "join_comma [] = []"
| "join_comma [s] = s"
| "join_comma (s # t # ss) = s @ '','' @ join_comma (t # ss)"

text \<open>
  \<^verbatim>\<open>ToString\<close>. An object is converted through its \<^verbatim>\<open>toString\<close> method: an ObjectId
  gives its hex string, a Date its printed form, an array joins the strings of its
  elements (with the empty string for \<^verbatim>\<open>null\<close> and \<^verbatim>\<open>undefined\<close>), an embedded document
  gives \<^verbatim>\<open>"[object Object]"\<close>. An embedded document with an own property named
  \<^verbatim>\<open>toString\<close> hides the inherited method behind a value that cannot be called, and
  the conversion throws a TypeError (whatever \<^verbatim>\<open>valueOf\<close> is: the inherited one
  returns the object itself, an own one cannot be called either).
\<close>

fun ToString :: "builtins \<Rightarrow> jsval \<Rightarrow> js_error + string" where
  "ToString b Undefined = Inr ''undefined''"
| "ToString b Null = Inr ''null''"
| "ToString b (Boolean x) = Inr (if x then ''true'' else ''false'')"
| "ToString b (Num n) = Inr (number_toString b n)"
| "ToString b (Str s) = Inr s"
| "ToString b (ObjectId h) = Inr h"
| "ToString b (DateObj t) = Inr (date_toString b t)"
| "ToString b (Arr xs) =
     (case collect (map (\<lambda>x. if x = Undefined \<or> x = Null then Inr [] else ToString b x) xs) of
        Inl err \<Rightarrow> Inl err
      | Inr ss \<Rightarrow> Inr (join_comma ss))"
| "ToString b (Obj kvs) =
     (if ''toString'' \<in> fst ` set kvs then Inl TypeError else Inr ''[object Object]'')"

text \<open>
  The method call \<^verbatim>\<open>v.toString()\<close>: reading a property of \<^verbatim>\<open>undefined\<close> or \<^verbatim>\<open>null\<close>
  throws a TypeError; on every other value the call gives what \<^verbatim>\<open>ToString\<close> gives.
\<close>

definition call_toString :: "builtins \<Rightarrow> jsval \<Rightarrow> js_error + string" where
  "call_toString b v = (if v = Undefined \<or> v = Null then Inl TypeError else ToString b v)"

text \<open>
  \<^verbatim>\<open>TimeClip\<close>: a time value is an integer of at most 8.64e15 in absolute value, or
  \<^verbatim>\<open>NaN\<close>.
\<close>

fun TimeClip :: "jsnum \<Rightarrow> int option" where
  "TimeClip NaN = None"
| "TimeClip PosInf = None"
| "TimeClip NegInf = None"
| "TimeClip NegZero = Some 0"
| "TimeClip (Fin q) =
     (if \<bar>q\<bar> > 8640000000000000 then None
      else Some (if 0 \<le> q then \<lfloor>q\<rfloor> else \<lceil>q\<rceil>))"

text \<open>
  \<^verbatim>\<open>new Date(v).getTime()\<close>: a Date is copied; any other object is first converted to
  a string (its \<^verbatim>\<open>valueOf\<close> does not give a primitive); a string is parsed; any other
  primitive is converted to a number (\<^verbatim>\<open>undefined\<close> to \<^verbatim>\<open>NaN\<close>, \<^verbatim>\<open>null\<close> and \<^verbatim>\<open>false\<close>
  to 0, \<^verbatim>\<open>true\<close> to 1) and clipped.
\<close>

fun new_Date_getTime :: "builtins \<Rightarrow> jsval \<Rightarrow> js_error + int option" where
  "new_Date_getTime b (DateObj t) = Inr t"
| "new_Date_getTime b (Str s) = Inr (date_parse b s)"
| "new_Date_getTime b Undefined = Inr None"
| "new_Date_getTime b Null = Inr (Some 0)"
| "new_Date_getTime b (Boolean x) = Inr (Some (if x then 1 else 0))"
| "new_Date_getTime b (Num n) = Inr (TimeClip n)"
| "new_Date_getTime b v =
     (case ToString b v of Inl err \<Rightarrow> Inl err | Inr s \<Rightarrow> Inr (date_parse b s))"

text \<open>The number that \<^verbatim>\<open>getTime()\<close> returns for a time value.\<close>

fun time_number :: "int option \<Rightarrow> jsval" where
  "time_number None = Num NaN"
| "time_number (Some t) = Num (Fin (of_int t))"

section \<open>The configured transform (\<^verbatim>\<open>COLLECTIONS_TO_SYNC[0].transform\<close>)\<close>

text \<open>\<^verbatim>\<open>v ? v.toString() : null\<close>\<close>

definition ref_string :: "builtins \<Rightarrow> jsval \<Rightarrow> js_error + jsval" where
  "ref_string b v =
     (if truthy v then (case call_toString b v of Inl err \<Rightarrow> Inl err | Inr s \<Rightarrow> Inr (Str s))
      else Inr Null)"

text \<open>
  \<^verbatim>\<open>Array.isArray(v) ? v.map(c => (typeof c === 'object' ? c.toString() : c)) : []\<close>
\<close>

definition string_element :: "builtins \<Rightarrow> jsval \<Rightarrow> js_error + jsval" where
  "string_element b c =
     (if typeof_object c
      then (case call_toString b c of Inl err \<Rightarrow> Inl err | Inr s \<Rightarrow> Inr (Str s))
      else Inr c)"

definition string_array :: "builtins \<Rightarrow> jsval \<Rightarrow> js_error + jsval" where
  "string_array b v =
     (case v of
        Arr xs \<Rightarrow>
          (case collect (map (string_element b) xs) of
             Inl err \<Rightarrow> Inl err
           | Inr ys \<Rightarrow> Inr (Arr ys))
      | _ \<Rightarrow> Inr (Arr []))"

text \<open>\<^verbatim>\<open>v ? new Date(v).getTime() : null\<close>\<close>

definition date_timestamp :: "builtins \<Rightarrow> jsval \<Rightarrow> js_error + jsval" where
  "date_timestamp b v =
     (if truthy v
      then (case new_Date_getTime b v of Inl err \<Rightarrow> Inl err | Inr t \<Rightarrow> Inr (time_number t))
      else Inr Null)"

text \<open>
  The transform builds an object literal; its property values are evaluated in the
  order written, so the first expression that throws decides the error. The
  expressions with \<^verbatim>\<open>||\<close> cannot throw.
\<close>

definition transform :: "builtins \<Rightarrow> doc \<Rightarrow> js_error + jsval" where
  "transform b d =
     (case call_toString b (property d ''_id'') of Inl err \<Rightarrow> Inl err | Inr ident \<Rightarrow>
      case ref_string b (property d ''User'') of Inl err \<Rightarrow> Inl err | Inr userId \<Rightarrow>
      case ref_string b (property d ''SpecOffer'') of Inl err \<Rightarrow> Inl err | Inr specOfferId \<Rightarrow>
      case ref_string b (property d ''PriceId'') of Inl err \<Rightarrow> Inl err | Inr priceId \<Rightarrow>
      case string_array b (property d ''Category'') of Inl err \<Rightarrow> Inl err | Inr category \<Rightarrow>
      case string_array b (property d ''Region'') of Inl err \<Rightarrow> Inl err | Inr region \<Rightarrow>
      case date_timestamp b (property d ''Date'') of Inl err \<Rightarrow> Inl err | Inr date \<Rightarrow>
        Inr (Obj
          [(''id'', Str ident),
           (''code'', js_or (property d ''Code'') Null),
           (''name'', js_or (property d ''Name'') Null),
           (''price'', js_or (property d ''Price'') (Num (Fin 0))),
           (''balance'', js_or (property d ''Balance'') (Num (Fin 0))),
           (''measure'', js_or (property d ''Measure'') Null),
           (''userId'', userId),
           (''specOfferId'', specOfferId),
           (''priceId'', priceId),
           (''category'', category),
           (''region'', region),
           (''date'', date)]))"

text \<open>Reading a property of any value (\<^verbatim>\<open>transformed.name\<close>): a value that is not a
  document has none of the properties read here.\<close>

fun field_of :: "jsval \<Rightarrow> string \<Rightarrow> jsval" where
  "field_of (Obj kvs) k = property kvs k"
| "field_of v k = Undefined"

section \<open>The search index\<close>

text \<open>
  Modelled from the spec: the Index Writer. The Meilisearch client is a library whose
  code is not part of the repository; the spec (section 4.4) gives its contract: add
  and update are upserts by document id (the value written last for an id is the one
  kept), delete-by-id removes the document and is a no-op on an absent id. The index
  is created with the primary key \<^verbatim>\<open>id\<close>; a value with no string \<^verbatim>\<open>id\<close> is not stored.
\<close>

datatype index_op =
    AddDocuments "jsval list"
  | UpdateDocuments "jsval list"
  | DeleteDocument string

type_synonym search_index = "(string \<times> jsval) list"

definition doc_key :: "jsval \<Rightarrow> string option" where
  "doc_key v = (case field_of v ''id'' of Str s \<Rightarrow> Some s | _ \<Rightarrow> None)"

definition upsert :: "jsval \<Rightarrow> search_index \<Rightarrow> search_index" where
  "upsert v idx = (case doc_key v of None \<Rightarrow> idx | Some k \<Rightarrow> AList.update k v idx)"

fun apply_op :: "index_op \<Rightarrow> search_index \<Rightarrow> search_index" where
  "apply_op (AddDocuments vs) idx = fold upsert vs idx"
| "apply_op (UpdateDocuments vs) idx = fold upsert vs idx"
| "apply_op (DeleteDocument k) idx = AList.delete k idx"

section \<open>The state the synchroniser acts on\<close>

text \<open>
  Console output, one constructor per message of the program. The first three are the
  connection messages of \<^verbatim>\<open>main\<close>. \<open>Loaded\<close> and \<open>InitialSyncFinished\<close> carry the running
  total; \<open>Added\<close> and \<open>Updated\<close> the label \<^verbatim>\<open>transformed.name || transformed.code\<close> and the
  document id; \<open>HandlerError\<close> and \<open>ChangeStreamError\<close> are the two \<^verbatim>\<open>console.error\<close> calls
  of \<^verbatim>\<open>syncCollection\<close>, with the error whose message they print. \<open>SyncRejected\<close> is the
  \<^verbatim>\<open>.catch(console.error)\<close> of \<^verbatim>\<open>main\<close>, \<open>CriticalError\<close> the \<^verbatim>\<open>console.error\<close> of its
  \<^verbatim>\<open>catch\<close> block, \<open>Stopping\<close> the message of the \<^verbatim>\<open>SIGINT\<close> handler. \<open>UnhandledRejection\<close>
  is what Node itself prints when a promise is rejected and nothing handles it.
\<close>

datatype log_entry =
    ConnectingMongo
  | ConnectedMongo
  | ConnectedMeili
  | IndexExists
  | CreatingIndex
  | SettingsUpdated
  | InitialSyncStarted
  | Loaded nat
  | InitialSyncFinished nat
  | StartingChangeStream
  | Added string string
  | Updated string string
  | Deleted string
  | HandlerError js_error
  | ChangeStreamError js_error
  | SyncRejected js_error
  | CriticalError js_error
  | Stopping
  | UnhandledRejection js_error

text \<open>The callbacks given to \<^verbatim>\<open>setTimeout\<close>: the program schedules only one kind.\<close>

datatype task = SyncCollection

text \<open>
  \<open>source\<close> is the collection, in the order in which \<^verbatim>\<open>find({})\<close> returns its records;
  \<open>page_reads\<close> lists the \<^verbatim>\<open>(skip, limit)\<close> of every page read issued, \<open>index_calls\<close>
  every write call issued to the index, both in order. \<open>listeners\<close> holds the change
  streams that the program has opened with \<^verbatim>\<open>watch\<close> and attached its handlers to, and
  that nobody has closed; \<open>opened\<close> counts the streams opened so far and numbers the
  next one. \<open>timers\<close> are the pending \<^verbatim>\<open>setTimeout\<close> calls, with their delay in
  milliseconds. \<open>exited\<close> is the exit code of the process once it has ended.
\<close>

record world =
  source :: "doc list"
  index_present :: bool
  index :: search_index
  page_reads :: "(nat \<times> nat) list"
  index_calls :: "index_op list"
  console :: "log_entry list"
  listeners :: "nat list"
  opened :: nat
  timers :: "(nat \<times> task) list"
  exited :: "nat option"

text \<open>
  What the program does not decide: the engine's built-ins, the transform of the
  configuration (a parameter of \<^verbatim>\<open>syncCollection\<close>, read as \<^verbatim>\<open>config.transform\<close>),
  whether the \<open>n\<close>-th write call to the index fails and with which error, and whether
  \<^verbatim>\<open>mongoClient.connect()\<close> and \<^verbatim>\<open>client.health()\<close> fail at the start.
\<close>

record env =
  engine :: builtins
  config_transform :: "doc \<Rightarrow> js_error + jsval"
  write_error :: "nat \<Rightarrow> index_op \<Rightarrow> js_error option"
  connect_error :: "js_error option"
  health_error :: "js_error option"

definition say :: "log_entry \<Rightarrow> world \<Rightarrow> world" where
  "say m w = w\<lparr>console := console w @ [m]\<rparr>"

text \<open>
  One awaited write call to the index: the call is issued; it either fails, and the
  index is left as it was, or takes effect.
\<close>

definition index_call :: "env \<Rightarrow> index_op \<Rightarrow> world \<Rightarrow> (js_error + unit) \<times> world" where
  "index_call e op w =
     (let w1 = w\<lparr>index_calls := index_calls w @ [op]\<rparr> in
      case write_error e (length (index_calls w)) op of
        Some err \<Rightarrow> (Inl err, w1)
      | None \<Rightarrow> (Inr (), w1\<lparr>index := apply_op op (index w)\<rparr>))"

section \<open>\<^verbatim>\<open>syncCollection\<close>: the bulk load\<close>

definition batchSize :: nat where
  "batchSize = 5000"

text \<open>\<^verbatim>\<open>collection.find({}).skip(skip).limit(limit).toArray()\<close>\<close>

definition find_page :: "doc list \<Rightarrow> nat \<Rightarrow> nat \<Rightarrow> doc list" where
  "find_page coll skip limit = take limit (drop skip coll)"

text \<open>
  The loop of lines 114 to 129, with \<open>skip\<close> and \<open>total\<close> (here \<open>ntotal\<close>) as arguments. A transform
  that throws inside \<^verbatim>\<open>docs.map\<close>, or a write that fails, ends \<^verbatim>\<open>syncCollection\<close> with
  that error; what was written before stays written. The collection does not change
  during the scan.
\<close>

function bulk_loop :: "env \<Rightarrow> nat \<Rightarrow> nat \<Rightarrow> world \<Rightarrow> (js_error + nat) \<times> world" where
  "bulk_loop e skip ntotal w =
     (let docs = find_page (source w) skip batchSize;
          w1 = w\<lparr>page_reads := page_reads w @ [(skip, batchSize)]\<rparr>
      in if docs = [] then (Inr ntotal, w1)
         else
           (case collect (map (config_transform e) docs) of
              Inl err \<Rightarrow> (Inl err, w1)
            | Inr results \<Rightarrow>
                (let documents = filter truthy results
                 in if documents \<noteq> []
                    then
                      (case index_call e (AddDocuments documents) w1 of
                         (Inl err, w2) \<Rightarrow> (Inl err, w2)
                       | (Inr u, w2) \<Rightarrow>
                           bulk_loop e (skip + batchSize) (ntotal + length documents)
                             (say (Loaded (ntotal + length documents)) w2))
                    else bulk_loop e (skip + batchSize) ntotal w1)))"
  by pat_completeness auto
termination
  by (relation "measure (\<lambda>(e, skip, ntotal, w). length (source w) - skip)")
     (auto simp: find_page_def batchSize_def index_call_def say_def Let_def
        split: option.splits)

declare bulk_loop.simps [simp del]

section \<open>\<^verbatim>\<open>syncCollection\<close>: the change stream\<close>

datatype operation = Insert | Update | Replace | Delete

text \<open>
  A change event. The stream is opened with a \<^verbatim>\<open>$match\<close> on the four operation types
  and with \<^verbatim>\<open>fullDocument: 'updateLookup'\<close>; \<open>fullDocument\<close> is \<open>None\<close> when the event
  carries none (\<^verbatim>\<open>null\<close> or absent: a delete, or a record deleted before the lookup).
\<close>

record change_event =
  operationType :: operation
  documentKey :: doc
  fullDocument :: "doc option"

text \<open>
  The body of the two upsert branches (lines 146 to 152 and 156 to 162), which differ
  in the write call and in the message. The message interpolates
  \<^verbatim>\<open>transformed.name || transformed.code\<close> into a template, which converts it to a
  string, after the write.
\<close>

definition upsert_branch ::
  "env \<Rightarrow> (jsval list \<Rightarrow> index_op) \<Rightarrow> (string \<Rightarrow> string \<Rightarrow> log_entry) \<Rightarrow> change_event \<Rightarrow>
   string \<Rightarrow> world \<Rightarrow> (js_error + unit) \<times> world" where
  "upsert_branch e write_op message change docId w =
     (case fullDocument change of
        None \<Rightarrow> (Inr (), w)
      | Some full \<Rightarrow>
          (case config_transform e full of
             Inl err \<Rightarrow> (Inl err, w)
           | Inr transformed \<Rightarrow>
               if truthy transformed
               then
                 (case index_call e (write_op [transformed]) w of
                    (Inl err, w1) \<Rightarrow> (Inl err, w1)
                  | (Inr u, w1) \<Rightarrow>
                      (case ToString (engine e)
                              (js_or (field_of transformed ''name'') (field_of transformed ''code'')) of
                         Inl err \<Rightarrow> (Inl err, w1)
                       | Inr label \<Rightarrow> (Inr (), say (message label docId) w1)))
               else (Inr (), w)))"

definition delete_branch :: "env \<Rightarrow> string \<Rightarrow> world \<Rightarrow> (js_error + unit) \<times> world" where
  "delete_branch e docId w =
     (case index_call e (DeleteDocument docId) w of
        (Inl err, w1) \<Rightarrow> (Inl err, w1)
      | (Inr u, w1) \<Rightarrow> (Inr (), say (Deleted docId) w1))"

text \<open>The \<^verbatim>\<open>try\<close> block of the change handler: three \<^verbatim>\<open>if\<close> statements in a row.\<close>

definition change_body :: "env \<Rightarrow> change_event \<Rightarrow> world \<Rightarrow> (js_error + unit) \<times> world" where
  "change_body e change w =
     (case call_toString (engine e) (property (documentKey change) ''_id'') of
        Inl err \<Rightarrow> (Inl err, w)
      | Inr docId \<Rightarrow>
          (case (if operationType change = Insert \<or> operationType change = Replace
                 then upsert_branch e AddDocuments Added change docId w
                 else (Inr (), w)) of
             (Inl err, w1) \<Rightarrow> (Inl err, w1)
           | (Inr u, w1) \<Rightarrow>
               (case (if operationType change = Update
                      then upsert_branch e UpdateDocuments Updated change docId w1
                      else (Inr (), w1)) of
                  (Inl err, w2) \<Rightarrow> (Inl err, w2)
                | (Inr u, w2) \<Rightarrow>
                    if operationType change = Delete then delete_branch e docId w2
                    else (Inr (), w2))))"

text \<open>
  The change handler: whatever the body throws is caught and printed. The handler
  is taken as one step: the model does not interleave two handlers at their awaits.
\<close>

definition on_change :: "env \<Rightarrow> change_event \<Rightarrow> world \<Rightarrow> world" where
  "on_change e change w =
     (case change_body e change w of
        (Inl err, w1) \<Rightarrow> say (HandlerError err) w1
      | (Inr u, w1) \<Rightarrow> w1)"

text \<open>The error handler (lines 174 to 177).\<close>

definition on_error :: "js_error \<Rightarrow> world \<Rightarrow> world" where
  "on_error err w =
     (say (ChangeStreamError err) w)\<lparr>timers := timers w @ [(10000, SyncCollection)]\<rparr>"

text \<open>\<^verbatim>\<open>collection.watch(pipeline, ...)\<close> and the two \<^verbatim>\<open>changeStream.on\<close> calls.\<close>

definition attach_listener :: "world \<Rightarrow> world" where
  "attach_listener w = w\<lparr>listeners := listeners w @ [opened w], opened := Suc (opened w)\<rparr>"

text \<open>
  Lines 93 to 106: the index is created unless it exists, and the settings are
  applied. The calls to the index administration and the reads of the collection are
  taken to succeed.
\<close>

definition prepare_index :: "world \<Rightarrow> world" where
  "prepare_index w =
     say SettingsUpdated
       (if index_present w then say IndexExists w
        else (say CreatingIndex w)\<lparr>index_present := True\<rparr>)"

definition bulk_load :: "env \<Rightarrow> world \<Rightarrow> (js_error + nat) \<times> world" where
  "bulk_load e w = bulk_loop e 0 0 (say InitialSyncStarted w)"

definition syncCollection :: "env \<Rightarrow> world \<Rightarrow> (js_error + unit) \<times> world" where
  "syncCollection e w =
     (case bulk_load e (prepare_index w) of
        (Inl err, w1) \<Rightarrow> (Inl err, w1)
      | (Inr ntotal, w1) \<Rightarrow>
          (Inr (), attach_listener (say StartingChangeStream (say (InitialSyncFinished ntotal) w1))))"

section \<open>The run of the program\<close>

text \<open>
  The end of the process (\<^verbatim>\<open>process.exit\<close>, or Node ending it): its listeners and its
  timers end with it.
\<close>

definition exit_process :: "nat \<Rightarrow> world \<Rightarrow> world" where
  "exit_process code w = w\<lparr>exited := Some code, listeners := [], timers := []\<rparr>"

text \<open>
  \<^verbatim>\<open>main\<close> (lines 182 to 210): the two connections are made, each with its message; an
  error there is printed by the \<^verbatim>\<open>catch\<close> block, which ends the process with exit code
  1. Then \<^verbatim>\<open>syncCollection\<close> is started for the one configured collection, with
  \<^verbatim>\<open>.catch(console.error)\<close>: an error of this first run is printed and the process
  stays, with nothing attached and nothing scheduled. The \<^verbatim>\<open>SIGINT\<close> handler is
  registered on the same path.
\<close>

definition main :: "env \<Rightarrow> world \<Rightarrow> world" where
  "main e w =
     (let w1 = say ConnectingMongo w
      in case connect_error e of
           Some err \<Rightarrow> exit_process 1 (say (CriticalError err) w1)
         | None \<Rightarrow>
             (let w2 = say ConnectedMongo w1
              in case health_error e of
                   Some err \<Rightarrow> exit_process 1 (say (CriticalError err) w2)
                 | None \<Rightarrow>
                     (case syncCollection e (say ConnectedMeili w2) of
                        (Inl err, w3) \<Rightarrow> say (SyncRejected err) w3
                      | (Inr u, w3) \<Rightarrow> w3)))"

text \<open>
  The callback of the timer, \<^verbatim>\<open>() => syncCollection(mongoClient, config)\<close>: the promise
  it starts has no \<^verbatim>\<open>catch\<close>. When the restarted \<^verbatim>\<open>syncCollection\<close> ends with an error,
  the rejection is unhandled: Node prints it and ends the process with exit code 1.
\<close>

fun run_task :: "env \<Rightarrow> task \<Rightarrow> world \<Rightarrow> world" where
  "run_task e SyncCollection w =
     (case syncCollection e w of
        (Inl err, w1) \<Rightarrow> exit_process 1 (say (UnhandledRejection err) w1)
      | (Inr u, w1) \<Rightarrow> w1)"

text \<open>
  Modelled from the spec: the change feed of the source store. The MongoDB driver is a
  library whose code is not part of the repository. A stream-level error is the Error
  transition of the listener, on which the listener terminates (section 4.3): the
  driver emits \<^verbatim>\<open>error\<close> on the change stream, the program's error handler runs, and the
  driver closes the stream, which delivers nothing after that.
\<close>

definition stream_failure :: "nat \<Rightarrow> js_error \<Rightarrow> world \<Rightarrow> world" where
  "stream_failure s err w =
     (let w1 = on_error err w in w1\<lparr>listeners := removeAll s (listeners w1)\<rparr>)"

text \<open>
  What happens to the program after \<^verbatim>\<open>main\<close>: a change event or an \<^verbatim>\<open>error\<close> event arrives
  on a change stream, a timer fires, or the process is interrupted. An event on a
  stream reaches the handlers only while the stream is attached. The timers all have
  the same delay and fire in the order they were set. The \<^verbatim>\<open>SIGINT\<close> handler prints its
  message, closes the connection and ends the process with exit code 0.
\<close>

datatype event =
    Change nat change_event
  | StreamFailure nat js_error
  | TimerFires
  | Interrupt

fun step :: "env \<Rightarrow> event \<Rightarrow> world \<Rightarrow> world" where
  "step e (Change s change) w = (if s \<in> set (listeners w) then on_change e change w else w)"
| "step e (StreamFailure s err) w =
     (if s \<in> set (listeners w) then stream_failure s err w else w)"
| "step e TimerFires w =
     (case timers w of
        [] \<Rightarrow> w
      | (delay, t) # rest \<Rightarrow> run_task e t (w\<lparr>timers := rest\<rparr>))"
| "step e Interrupt w =
     (if exited w = None then exit_process 0 (say Stopping w) else w)"

text \<open>The program from its start: \<^verbatim>\<open>main\<close>, then the events in their order.\<close>

definition run :: "env \<Rightarrow> event list \<Rightarrow> world \<Rightarrow> world" where
  "run e evs w = fold (step e) evs (main e w)"

section \<open>Predicates and examples used in the statements\<close>

text \<open>
  \<open>printable v\<close>: converting \<open>v\<close> to a string does not throw, that is, \<open>v\<close> holds no
  embedded document with an own property \<^verbatim>\<open>toString\<close> where the conversion looks.
\<close>

fun printable :: "jsval \<Rightarrow> bool" where
  "printable (Arr xs) = (\<forall>x\<in>set xs. printable x)"
| "printable (Obj kvs) = (''toString'' \<notin> fst ` set kvs)"
| "printable v = True"

text \<open>A number that can be compared with others: a finite one.\<close>

fun sortable_number :: "jsval \<Rightarrow> bool" where
  "sortable_number (Num (Fin q)) = True"
| "sortable_number v = False"

text \<open>
  An engine to evaluate examples with. It parses no string as a date. The examples
  hold no number or date that is printed, and the one string they have parsed,
  \<^verbatim>\<open>"not a date"\<close>, is not a date for any engine: their results are those of every
  engine.
\<close>

definition stub_engine :: builtins where
  "stub_engine = \<lparr>number_toString = (\<lambda>n. ''NaN''), date_toString = (\<lambda>t. ''Invalid Date''),
     date_parse = (\<lambda>s. None)\<rparr>"

text \<open>A record with nothing but its \<^verbatim>\<open>_id\<close>.\<close>

definition id_only :: doc where
  "id_only = [(''_id'', ObjectId ''65a1b2c3d4e5f60718293a4b'')]"

text \<open>\<open>ceil_div n b\<close> is the quotient of \<open>n\<close> by \<open>b\<close>, rounded up.\<close>

definition ceil_div :: "nat \<Rightarrow> nat \<Rightarrow> nat" where
  "ceil_div n b = (n + b - 1) div b"

text \<open>
  The transformed, non-skipped subset of a list of records: the truthy results of the
  transform, in the order of the records.
\<close>

fun non_skipped :: "(doc \<Rightarrow> js_error + jsval) \<Rightarrow> doc list \<Rightarrow> jsval list" where
  "non_skipped t [] = []"
| "non_skipped t (r # rs) =
     (case t r of
        Inl err \<Rightarrow> non_skipped t rs
      | Inr v \<Rightarrow> if truthy v then v # non_skipped t rs else non_skipped t rs)"

text \<open>A state with nothing read, written, printed, attached or scheduled yet.\<close>

definition fresh_world :: "doc list \<Rightarrow> world" where
  "fresh_world coll = \<lparr>source = coll, index_present = False, index = [], page_reads = [],
     index_calls = [], console = [], listeners = [], opened = 0, timers = [], exited = None\<rparr>"

text \<open>
  An environment for the examples: the configured transform, two services that can be
  reached, and an index whose writes succeed.
\<close>

definition sample_env :: env where
  "sample_env = \<lparr>engine = stub_engine, config_transform = transform stub_engine,
     write_error = (\<lambda>k op. None), connect_error = None, health_error = None\<rparr>"

text \<open>An index that already holds a document, as on a restart, and one record to load.\<close>

definition stale_doc :: jsval where
  "stale_doc = Obj [(''id'', Str ''old''), (''name'', Str ''gone'')]"

definition stale_world :: world where
  "stale_world = (fresh_world [id_only])\<lparr>index_present := True, index := [(''old'', stale_doc)]\<rparr>"

text \<open>
  Two change events for the record \<open>id_only\<close>, and an environment in which every write
  to the index fails.
\<close>

definition insert_event :: change_event where
  "insert_event = \<lparr>operationType = Insert, documentKey = id_only, fullDocument = Some id_only\<rparr>"

definition delete_event :: change_event where
  "delete_event = \<lparr>operationType = Delete, documentKey = id_only, fullDocument = None\<rparr>"

definition failing_env :: env where
  "failing_env = sample_env\<lparr>write_error := (\<lambda>k op. Some (ServiceError ''index unavailable''))\<rparr>"

text \<open>An error of the change feed.\<close>

definition cursor_lost :: js_error where
  "cursor_lost = ServiceError ''cursor lost''"

section \<open>Properties of the transform\<close>

lemma collect_Inr_iff: "(\<exists>ys. collect rs = Inr ys) \<longleftrightarrow> (\<forall>r\<in>set rs. \<exists>y. r = Inr y)"
  by (induction rs rule: collect.induct) (auto split: sum.splits)

lemma ToString_printable: "printable v \<Longrightarrow> \<exists>s. ToString b v = Inr s"
proof (induction v)
  case (Arr xs)
  have "\<forall>r\<in>set (map (\<lambda>x. if x = Undefined \<or> x = Null then Inr [] else ToString b x) xs). \<exists>y. r = Inr y"
    using Arr by auto
  then obtain ys where "collect (map (\<lambda>x. if x = Undefined \<or> x = Null then Inr [] else ToString b x) xs) = Inr ys"
    using collect_Inr_iff by blast
  then show ?case by simp
qed auto


text \<open>
  For a given engine the result of the transform depends on the fields of the record
  and their values only, not on the order in which the record lists them.
\<close>

lemma transform_cong: "map_of d1 = map_of d2 \<Longrightarrow> transform b d1 = transform b d2"
proof -
  assume "map_of d1 = map_of d2"
  then have "property d1 = property d2"
    by (simp add: fun_eq_iff property_def)
  then show ?thesis
    by (simp only: transform_def)
qed

lemma call_toString_printable:
  "v \<noteq> Undefined \<Longrightarrow> v \<noteq> Null \<Longrightarrow> printable v \<Longrightarrow> \<exists>s. call_toString b v = Inr s"
  by (simp add: call_toString_def ToString_printable)

lemma ref_string_printable: "printable v \<Longrightarrow> \<exists>r. ref_string b v = Inr r"
proof (cases "truthy v")
  case True
  assume "printable v"
  moreover from True have "v \<noteq> Undefined" "v \<noteq> Null" by auto
  ultimately obtain s where "call_toString b v = Inr s"
    using call_toString_printable by blast
  with True show ?thesis by (simp add: ref_string_def)
next
  case False
  then show ?thesis by (simp add: ref_string_def)
qed

lemma ref_string_absent: "\<not> truthy v \<Longrightarrow> ref_string b v = Inr Null"
  by (simp add: ref_string_def)

lemma string_element_printable:
  "c \<noteq> Null \<Longrightarrow> printable c \<Longrightarrow> \<exists>r. string_element b c = Inr r"
proof (cases "typeof_object c")
  case True
  assume "c \<noteq> Null" "printable c"
  moreover from True have "c \<noteq> Undefined" by auto
  ultimately obtain s where "call_toString b c = Inr s"
    using call_toString_printable by blast
  with True show ?thesis by (simp add: string_element_def)
next
  case False
  then show ?thesis by (simp add: string_element_def)
qed

lemma string_array_printable:
  assumes "\<And>xs. v = Arr xs \<Longrightarrow> \<forall>c\<in>set xs. c \<noteq> Null \<and> printable c"
  shows "\<exists>r. string_array b v = Inr r"
proof (cases v)
  case (Arr xs)
  with assms have "\<forall>r\<in>set (map (string_element b) xs). \<exists>y. r = Inr y"
    using string_element_printable by auto
  then obtain ys where "collect (map (string_element b) xs) = Inr ys"
    using collect_Inr_iff by blast
  with Arr show ?thesis by (simp add: string_array_def)
qed (simp_all add: string_array_def)

lemma string_array_not_array: "\<not> truthy v \<Longrightarrow> string_array b v = Inr (Arr [])"
  by (cases v) (simp_all add: string_array_def)

lemma new_Date_getTime_printable: "printable v \<Longrightarrow> \<exists>t. new_Date_getTime b v = Inr t"
proof (cases v)
  case (ObjectId h)
  then show ?thesis by simp
next
  case (Arr xs)
  assume "printable v"
  then obtain s where "ToString b v = Inr s" using ToString_printable by blast
  with Arr show ?thesis by simp
next
  case (Obj kvs)
  assume "printable v"
  then obtain s where "ToString b v = Inr s" using ToString_printable by blast
  with Obj show ?thesis by simp
qed simp_all

lemma date_timestamp_printable: "printable v \<Longrightarrow> \<exists>r. date_timestamp b v = Inr r"
proof -
  assume "printable v"
  then obtain t where "new_Date_getTime b v = Inr t"
    using new_Date_getTime_printable by blast
  then show ?thesis by (simp add: date_timestamp_def)
qed

lemma transform_fields:
  assumes "call_toString b (property d ''_id'') = Inr ident"
    and "ref_string b (property d ''User'') = Inr userId"
    and "ref_string b (property d ''SpecOffer'') = Inr specOfferId"
    and "ref_string b (property d ''PriceId'') = Inr priceId"
    and "string_array b (property d ''Category'') = Inr category"
    and "string_array b (property d ''Region'') = Inr region"
    and "date_timestamp b (property d ''Date'') = Inr date"
  shows "transform b d = Inr (Obj
          [(''id'', Str ident),
           (''code'', js_or (property d ''Code'') Null),
           (''name'', js_or (property d ''Name'') Null),
           (''price'', js_or (property d ''Price'') (Num (Fin 0))),
           (''balance'', js_or (property d ''Balance'') (Num (Fin 0))),
           (''measure'', js_or (property d ''Measure'') Null),
           (''userId'', userId),
           (''specOfferId'', specOfferId),
           (''priceId'', priceId),
           (''category'', category),
           (''region'', region),
           (''date'', date)])"
  using assms by (simp add: transform_def)

lemma transform_Inr_fields:
  assumes "transform b d = Inr out"
  shows "\<exists>ident userId specOfferId priceId category region date.
    call_toString b (property d ''_id'') = Inr ident \<and>
    ref_string b (property d ''User'') = Inr userId \<and>
    ref_string b (property d ''SpecOffer'') = Inr specOfferId \<and>
    ref_string b (property d ''PriceId'') = Inr priceId \<and>
    string_array b (property d ''Category'') = Inr category \<and>
    string_array b (property d ''Region'') = Inr region \<and>
    date_timestamp b (property d ''Date'') = Inr date \<and>
    out = Obj
          [(''id'', Str ident),
           (''code'', js_or (property d ''Code'') Null),
           (''name'', js_or (property d ''Name'') Null),
           (''price'', js_or (property d ''Price'') (Num (Fin 0))),
           (''balance'', js_or (property d ''Balance'') (Num (Fin 0))),
           (''measure'', js_or (property d ''Measure'') Null),
           (''userId'', userId),
           (''specOfferId'', specOfferId),
           (''priceId'', priceId),
           (''category'', category),
           (''region'', region),
           (''date'', date)]"
  using assms by (auto simp: transform_def split: sum.splits)

lemma transform_truthy: "transform b d = Inr v \<Longrightarrow> truthy v"
  by (auto simp: transform_def split: sum.splits)

text \<open>
  \<^verbatim>\<open>typeof null\<close> is \<^verbatim>\<open>'object'\<close>, so a \<^verbatim>\<open>null\<close> element of \<^verbatim>\<open>Category\<close> (or \<^verbatim>\<open>Region\<close>) is sent to
  \<^verbatim>\<open>c.toString()\<close>, which throws.
\<close>

lemma transform_null_element:
  "transform b [(''_id'', Str ''x''), (''Category'', Arr [Null])] = Inl TypeError"
  by (simp add: transform_def property_def call_toString_def ref_string_def string_array_def
      string_element_def)

section \<open>Claims about the transform\<close>

text \<open>
  Claim C2, as amended. The claim says that the transform never throws, a missing
  \<^verbatim>\<open>_id\<close> included. The first expression of the transform is \<^verbatim>\<open>doc._id.toString()\<close>, with
  no guard: a record with no \<^verbatim>\<open>_id\<close> throws a TypeError (the counterexample below).
  What holds: on a record whose \<^verbatim>\<open>_id\<close> is present and not null, whose \<^verbatim>\<open>_id\<close>, \<^verbatim>\<open>User\<close>,
  \<^verbatim>\<open>SpecOffer\<close>, \<^verbatim>\<open>PriceId\<close> and \<^verbatim>\<open>Date\<close> can be converted to a string, and whose
  \<^verbatim>\<open>Category\<close> and \<^verbatim>\<open>Region\<close>, where they are arrays, hold no \<^verbatim>\<open>null\<close> and only elements
  that can be converted, the transform returns a document, and every other missing
  field is defaulted: to \<^verbatim>\<open>null\<close>, to 0 (\<^verbatim>\<open>Price\<close>, \<^verbatim>\<open>Balance\<close>) or to the empty array
  (\<^verbatim>\<open>Category\<close>, \<^verbatim>\<open>Region\<close>).
\<close>

theorem transform_total_with_id:
  assumes "property d ''_id'' \<noteq> Undefined" and "property d ''_id'' \<noteq> Null"
    and "\<forall>k\<in>{''_id'', ''User'', ''SpecOffer'', ''PriceId'', ''Date''}. printable (property d k)"
    and "\<forall>k\<in>{''Category'', ''Region''}. \<forall>xs. property d k = Arr xs \<longrightarrow>
           (\<forall>c\<in>set xs. c \<noteq> Null \<and> printable c)"
  shows "\<exists>out. transform b d = Inr out \<and>
      (property d ''Code'' = Undefined \<longrightarrow> field_of out ''code'' = Null) \<and>
      (property d ''Name'' = Undefined \<longrightarrow> field_of out ''name'' = Null) \<and>
      (property d ''Price'' = Undefined \<longrightarrow> field_of out ''price'' = Num (Fin 0)) \<and>
      (property d ''Balance'' = Undefined \<longrightarrow> field_of out ''balance'' = Num (Fin 0)) \<and>
      (property d ''Measure'' = Undefined \<longrightarrow> field_of out ''measure'' = Null) \<and>
      (property d ''User'' = Undefined \<longrightarrow> field_of out ''userId'' = Null) \<and>
      (property d ''SpecOffer'' = Undefined \<longrightarrow> field_of out ''specOfferId'' = Null) \<and>
      (property d ''PriceId'' = Undefined \<longrightarrow> field_of out ''priceId'' = Null) \<and>
      (property d ''Category'' = Undefined \<longrightarrow> field_of out ''category'' = Arr []) \<and>
      (property d ''Region'' = Undefined \<longrightarrow> field_of out ''region'' = Arr []) \<and>
      (property d ''Date'' = Undefined \<longrightarrow> field_of out ''date'' = Null)"
proof -
  obtain ident where a: "call_toString b (property d ''_id'') = Inr ident"
    using assms(1-3) call_toString_printable by force
  obtain userId where u: "ref_string b (property d ''User'') = Inr userId"
    using assms(3) ref_string_printable by force
  obtain specOfferId where s: "ref_string b (property d ''SpecOffer'') = Inr specOfferId"
    using assms(3) ref_string_printable by force
  obtain priceId where p: "ref_string b (property d ''PriceId'') = Inr priceId"
    using assms(3) ref_string_printable by force
  obtain category where c: "string_array b (property d ''Category'') = Inr category"
    using assms(4) string_array_printable[of "property d ''Category''" b] by auto
  obtain region where r: "string_array b (property d ''Region'') = Inr region"
    using assms(4) string_array_printable[of "property d ''Region''" b] by auto
  obtain date where t: "date_timestamp b (property d ''Date'') = Inr date"
    using assms(3) date_timestamp_printable by force
  note out = transform_fields[OF a u s p c r t]
  have "property d ''User'' = Undefined \<longrightarrow> userId = Null"
    using u by (auto simp: ref_string_def)
  moreover have "property d ''SpecOffer'' = Undefined \<longrightarrow> specOfferId = Null"
    using s by (auto simp: ref_string_def)
  moreover have "property d ''PriceId'' = Undefined \<longrightarrow> priceId = Null"
    using p by (auto simp: ref_string_def)
  moreover have "property d ''Category'' = Undefined \<longrightarrow> category = Arr []"
    using c by (auto simp: string_array_def)
  moreover have "property d ''Region'' = Undefined \<longrightarrow> region = Arr []"
    using r by (auto simp: string_array_def)
  moreover have "property d ''Date'' = Undefined \<longrightarrow> date = Null"
    using t by (auto simp: date_timestamp_def)
  ultimately show ?thesis
    unfolding out by (simp add: property_def js_or_def)
qed

text \<open>The theorem of C2 at the record that has only an \<^verbatim>\<open>_id\<close>.\<close>

theorem transform_total_with_id_witness:
  "property id_only ''_id'' = ObjectId ''65a1b2c3d4e5f60718293a4b'' \<and>
   (\<exists>out. transform stub_engine id_only = Inr out \<and>
      field_of out ''code'' = Null \<and> field_of out ''name'' = Null \<and>
      field_of out ''price'' = Num (Fin 0) \<and> field_of out ''balance'' = Num (Fin 0) \<and>
      field_of out ''userId'' = Null \<and> field_of out ''category'' = Arr [] \<and>
      field_of out ''date'' = Null)"
proof -
  have 1: "property id_only ''_id'' \<noteq> Undefined" and 2: "property id_only ''_id'' \<noteq> Null"
    by (simp_all add: id_only_def property_def)
  have 3: "\<forall>k\<in>{''_id'', ''User'', ''SpecOffer'', ''PriceId'', ''Date''}. printable (property id_only k)"
    by (simp add: id_only_def property_def)
  have 4: "\<forall>k\<in>{''Category'', ''Region''}. \<forall>xs. property id_only k = Arr xs \<longrightarrow>
           (\<forall>c\<in>set xs. c \<noteq> Null \<and> printable c)"
    by (simp add: id_only_def property_def)
  from transform_total_with_id[OF 1 2 3 4, of stub_engine]
  show ?thesis
    by (auto simp: id_only_def property_def)
qed

text \<open>
  Counterexample to C2 as stated: the record \<^verbatim>\<open>{Name: "foo", Price: 10}\<close> has no \<^verbatim>\<open>_id\<close>,
  and the transform throws.
\<close>

theorem transform_raises_without_id:
  "transform stub_engine [(''Name'', Str ''foo''), (''Price'', Num (Fin 10))] = Inl TypeError"
  by (simp add: transform_def property_def call_toString_def)

text \<open>
  Claim C7, as amended. The claim says that a present \<^verbatim>\<open>Date\<close> always gives a sortable
  number. The transform tests \<^verbatim>\<open>doc.Date\<close> for truthiness, so a present but falsy
  \<^verbatim>\<open>Date\<close> (the number 0, the empty string, \<^verbatim>\<open>null\<close>) gives \<^verbatim>\<open>null\<close>, as an absent one
  does; and \<^verbatim>\<open>getTime()\<close> of an invalid date is \<^verbatim>\<open>NaN\<close>. What holds, for a record on
  which the transform does not throw: the output \<^verbatim>\<open>date\<close> is \<^verbatim>\<open>null\<close> when \<^verbatim>\<open>Date\<close> is
  absent or falsy; when \<^verbatim>\<open>Date\<close> is truthy it is the time value of \<^verbatim>\<open>new Date(doc.Date)\<close>,
  which is a finite number exactly when that date is valid, and \<^verbatim>\<open>NaN\<close> otherwise.
\<close>

theorem transform_date_field:
  assumes "transform b d = Inr out"
  shows "(\<not> truthy (property d ''Date'') \<longrightarrow> field_of out ''date'' = Null) \<and>
         (truthy (property d ''Date'') \<longrightarrow>
            (\<exists>t. new_Date_getTime b (property d ''Date'') = Inr t \<and>
                 field_of out ''date'' = time_number t \<and>
                 (sortable_number (field_of out ''date'') \<longleftrightarrow> t \<noteq> None)))"
proof -
  from transform_Inr_fields[OF assms] obtain date where
    t: "date_timestamp b (property d ''Date'') = Inr date" and o: "field_of out ''date'' = date"
    by (auto simp: property_def)
  show ?thesis
  proof (cases "truthy (property d ''Date'')")
    case True
    with t obtain tv where "new_Date_getTime b (property d ''Date'') = Inr tv" "date = time_number tv"
      by (auto simp: date_timestamp_def split: sum.splits)
    moreover have "sortable_number (time_number tv) \<longleftrightarrow> tv \<noteq> None"
      by (cases tv) simp_all
    ultimately show ?thesis using True o by simp
  next
    case False
    with t o show ?thesis by (simp add: date_timestamp_def)
  qed
qed

text \<open>The theorem of C7 at a record with a valid \<^verbatim>\<open>Date\<close>.\<close>

theorem transform_date_field_witness:
  "transform stub_engine [(''_id'', Str ''x''), (''Date'', DateObj (Some 1700000000000))]
     = Inr (Obj [(''id'', Str ''x''), (''code'', Null), (''name'', Null), (''price'', Num (Fin 0)),
         (''balance'', Num (Fin 0)), (''measure'', Null), (''userId'', Null),
         (''specOfferId'', Null), (''priceId'', Null), (''category'', Arr []),
         (''region'', Arr []), (''date'', Num (Fin 1700000000000))]) \<and>
   sortable_number (Num (Fin 1700000000000))"
proof -
  let ?d = "[(''_id'', Str ''x''), (''Date'', DateObj (Some 1700000000000))]"
  let ?out = "Obj [(''id'', Str ''x''), (''code'', Null), (''name'', Null), (''price'', Num (Fin 0)),
         (''balance'', Num (Fin 0)), (''measure'', Null), (''userId'', Null),
         (''specOfferId'', Null), (''priceId'', Null), (''category'', Arr []),
         (''region'', Arr []), (''date'', Num (Fin 1700000000000))]"
  have h: "transform stub_engine ?d = Inr ?out"
    by (simp add: transform_def property_def call_toString_def ref_string_def string_array_def
        date_timestamp_def js_or_def)
  from transform_date_field[OF h] have "sortable_number (field_of ?out ''date'')"
    by (simp add: property_def)
  with h show ?thesis by (simp add: property_def)
qed

text \<open>
  Counterexample to C7 as stated: with \<^verbatim>\<open>Date: "not a date"\<close> and with \<^verbatim>\<open>Date: Infinity\<close>
  the output \<^verbatim>\<open>date\<close> is \<^verbatim>\<open>NaN\<close>, and with \<^verbatim>\<open>Date: 0\<close> (present) it is \<^verbatim>\<open>null\<close>; neither is
  a sortable number.
\<close>

theorem transform_date_not_sortable:
  "transform stub_engine [(''_id'', Str ''x''), (''Date'', Str ''not a date'')]
     = Inr (Obj [(''id'', Str ''x''), (''code'', Null), (''name'', Null), (''price'', Num (Fin 0)),
         (''balance'', Num (Fin 0)), (''measure'', Null), (''userId'', Null),
         (''specOfferId'', Null), (''priceId'', Null), (''category'', Arr []),
         (''region'', Arr []), (''date'', Num NaN)]) \<and>
   transform stub_engine [(''_id'', Str ''x''), (''Date'', Num PosInf)]
     = Inr (Obj [(''id'', Str ''x''), (''code'', Null), (''name'', Null), (''price'', Num (Fin 0)),
         (''balance'', Num (Fin 0)), (''measure'', Null), (''userId'', Null),
         (''specOfferId'', Null), (''priceId'', Null), (''category'', Arr []),
         (''region'', Arr []), (''date'', Num NaN)]) \<and>
   \<not> sortable_number (Num NaN) \<and>
   transform stub_engine [(''_id'', Str ''x''), (''Date'', Num (Fin 0))]
     = Inr (Obj [(''id'', Str ''x''), (''code'', Null), (''name'', Null), (''price'', Num (Fin 0)),
         (''balance'', Num (Fin 0)), (''measure'', Null), (''userId'', Null),
         (''specOfferId'', Null), (''priceId'', Null), (''category'', Arr []),
         (''region'', Arr []), (''date'', Null)]) \<and>
   \<not> sortable_number Null"
  by (simp add: transform_def property_def call_toString_def ref_string_def string_array_def
        date_timestamp_def js_or_def stub_engine_def)

text \<open>
  Claim C10. Let two records differ only in a field other than \<^verbatim>\<open>_id\<close>, absent from
  the one and present with a falsy value in the other. Their transforms are equal;
  and in the output the field reads \<^verbatim>\<open>null\<close> for \<^verbatim>\<open>Code\<close>, \<^verbatim>\<open>Name\<close> and \<^verbatim>\<open>Measure\<close>, and 0
  for \<^verbatim>\<open>Price\<close> and \<^verbatim>\<open>Balance\<close>. (\<^verbatim>\<open>_id\<close> has no default: it is not one of the fields of
  lines 25 to 29 that the claim is about.)
\<close>

theorem transform_falsy_as_absent:
  assumes "\<not> truthy v" and "k \<noteq> ''_id''" and "map_of d k = None"
    and "map_of d' = (map_of d)(k \<mapsto> v)"
  shows "transform b d' = transform b d \<and>
    (\<forall>out. transform b d' = Inr out \<longrightarrow>
       (k = ''Code'' \<longrightarrow> field_of out ''code'' = Null) \<and>
       (k = ''Name'' \<longrightarrow> field_of out ''name'' = Null) \<and>
       (k = ''Price'' \<longrightarrow> field_of out ''price'' = Num (Fin 0)) \<and>
       (k = ''Balance'' \<longrightarrow> field_of out ''balance'' = Num (Fin 0)) \<and>
       (k = ''Measure'' \<longrightarrow> field_of out ''measure'' = Null))"
proof -
  have other: "property d' j = property d j" if "j \<noteq> k" for j
    using that assms(4) by (simp add: property_def)
  have here: "property d' k = v" "property d k = Undefined"
    using assms(3,4) by (simp_all add: property_def)
  have or_eq: "js_or (property d' j) x = js_or (property d j) x" for j x
    using other[of j] here assms(1) by (cases "j = k") (auto simp: js_or_def)
  have ident_eq: "call_toString b (property d' ''_id'') = call_toString b (property d ''_id'')"
    using other[of "''_id''"] assms(2) by simp
  have ref_eq: "ref_string b (property d' j) = ref_string b (property d j)" for j
    using other[of j] here assms(1) by (cases "j = k") (auto simp: ref_string_absent)
  have arr_eq: "string_array b (property d' j) = string_array b (property d j)" for j
    using other[of j] here assms(1) by (cases "j = k") (auto simp: string_array_not_array)
  have date_eq: "date_timestamp b (property d' j) = date_timestamp b (property d j)" for j
    using other[of j] here assms(1) by (cases "j = k") (auto simp: date_timestamp_def)
  have eq: "transform b d' = transform b d"
    by (simp only: transform_def or_eq ident_eq ref_eq arr_eq date_eq)
  have "field_of out ''code'' = js_or (property d' ''Code'') Null \<and>
        field_of out ''name'' = js_or (property d' ''Name'') Null \<and>
        field_of out ''price'' = js_or (property d' ''Price'') (Num (Fin 0)) \<and>
        field_of out ''balance'' = js_or (property d' ''Balance'') (Num (Fin 0)) \<and>
        field_of out ''measure'' = js_or (property d' ''Measure'') Null"
    if "transform b d' = Inr out" for out
    using transform_Inr_fields[OF that] by (auto simp: property_def)
  with here assms(1) eq show ?thesis
    by (auto simp: js_or_def)
qed

text \<open>The theorem of C10 at \<^verbatim>\<open>Name\<close> set to the empty string.\<close>

theorem transform_falsy_as_absent_witness:
  "\<not> truthy (Str '''') \<and>
   transform stub_engine [(''_id'', Str ''x''), (''Name'', Str '''')] = transform stub_engine [(''_id'', Str ''x'')] \<and>
   (\<exists>out. transform stub_engine [(''_id'', Str ''x''), (''Name'', Str '''')] = Inr out \<and> field_of out ''name'' = Null)"
proof -
  have 1: "\<not> truthy (Str '''')" by simp
  have 2: "''Name'' \<noteq> ''_id''" by simp
  have 3: "map_of [(''_id'', Str ''x'')] ''Name'' = None" by simp
  have 4: "map_of [(''_id'', Str ''x''), (''Name'', Str '''')] = (map_of [(''_id'', Str ''x'')])(''Name'' \<mapsto> Str '''')"
    by (rule ext) simp
  have 5: "\<exists>out. transform stub_engine [(''_id'', Str ''x'')] = Inr out"
    by (simp add: transform_def property_def call_toString_def ref_string_def string_array_def
        date_timestamp_def js_or_def)
  from transform_falsy_as_absent[OF 1 2 3 4, of stub_engine] 1 5 show ?thesis by auto
qed

section \<open>Properties of the bulk load\<close>

lemma non_skipped_append: "non_skipped t (xs @ ys) = non_skipped t xs @ non_skipped t ys"
  by (induction xs) (auto split: sum.splits)

lemma collect_non_skipped:
  "collect (map t rs) = Inr results \<Longrightarrow> filter truthy results = non_skipped t rs"
  by (induction rs arbitrary: results) (auto split: sum.splits)

lemma collect_total:
  "\<forall>r\<in>set rs. \<exists>v. t r = Inr v \<Longrightarrow> \<exists>results. collect (map t rs) = Inr results"
  using collect_Inr_iff[of "map t rs"] by auto

lemma bulk_loop_end:
  assumes "length (source w) \<le> skip"
  shows "bulk_loop e skip n w = (Inr n, w\<lparr>page_reads := page_reads w @ [(skip, batchSize)]\<rparr>)"
  using assms by (simp add: bulk_loop.simps[of e skip n w] find_page_def Let_def)

lemma find_page_nonempty: "skip < length coll \<Longrightarrow> find_page coll skip batchSize \<noteq> []"
  by (simp add: find_page_def batchSize_def)

lemma bulk_loop_page:
  assumes "skip < length (source w)"
    and "\<forall>r\<in>set (source w). \<exists>v. config_transform e r = Inr v"
    and "\<forall>k op. write_error e k op = None"
  shows "bulk_loop e skip n w =
     (let documents = non_skipped (config_transform e) (find_page (source w) skip batchSize);
          w1 = w\<lparr>page_reads := page_reads w @ [(skip, batchSize)]\<rparr>
      in if documents \<noteq> []
         then bulk_loop e (skip + batchSize) (n + length documents)
                (say (Loaded (n + length documents))
                   (w1\<lparr>index_calls := index_calls w @ [AddDocuments documents],
                       index := fold upsert documents (index w)\<rparr>))
         else bulk_loop e (skip + batchSize) n w1)"
proof -
  let ?docs = "find_page (source w) skip batchSize"
  have ne: "?docs \<noteq> []" using assms(1) by (rule find_page_nonempty)
  have "set ?docs \<subseteq> set (source w)"
    by (auto simp: find_page_def dest: in_set_takeD in_set_dropD)
  with assms(2) have "\<forall>r\<in>set ?docs. \<exists>v. config_transform e r = Inr v" by blast
  then obtain results where c: "collect (map (config_transform e) ?docs) = Inr results"
    using collect_total by blast
  have f: "filter truthy results = non_skipped (config_transform e) ?docs"
    using c by (rule collect_non_skipped)
  show ?thesis
    using ne c f assms(3)
    by (subst bulk_loop.simps) (simp add: Let_def index_call_def)
qed


lemma ceil_div_0: "0 < b \<Longrightarrow> ceil_div 0 b = 0"
  by (simp add: ceil_div_def)

lemma ceil_div_step:
  assumes "0 < b" and "0 < r"
  shows "ceil_div r b = Suc (ceil_div (r - b) b)"
proof (cases "b \<le> r")
  case True
  then have "r + b - 1 = (r - b + b - 1) + b" using assms by simp
  then have "(r + b - 1) div b = (r - b + b - 1) div b + 1"
    using assms(1) by (metis div_add_self2 less_numeral_extra(3))
  then show ?thesis by (simp add: ceil_div_def)
next
  case False
  then have "r - b = 0" by simp
  moreover have "(r + b - 1) div b = 1"
  proof -
    have "r + b - 1 = (r - 1) + b" using assms by simp
    moreover have "(r - 1) div b = 0" using False assms by simp
    ultimately show ?thesis using assms(1) by (metis div_add_self2 less_numeral_extra(3) add_0 Suc_eq_plus1 One_nat_def add.commute)
  qed
  ultimately show ?thesis using assms(1) by (simp add: ceil_div_def)
qed

lemma reads_shift:
  "map (\<lambda>i. (skip + i * b, b)) [0..<Suc m] = (skip, b) # map (\<lambda>i. (skip + b + i * b, b)) [0..<m]"
proof -
  have "[0..<Suc m] = 0 # map Suc [0..<m]"
    by (simp add: upt_conv_Cons map_Suc_upt del: upt_Suc)
  then show ?thesis
    by (simp add: comp_def add.assoc del: upt_Suc)
qed

lemma page_split: "find_page coll skip batchSize @ drop (skip + batchSize) coll = drop skip coll"
proof -
  have "take batchSize (drop skip coll) @ drop batchSize (drop skip coll) = drop skip coll"
    by (rule append_take_drop_id)
  then show ?thesis by (simp add: find_page_def add.commute)
qed

lemma bulk_loop_completes:
  assumes "\<forall>r\<in>set (source w). \<exists>v. config_transform e r = Inr v"
    and "\<forall>k op. write_error e k op = None"
  shows "\<exists>w'. bulk_loop e skip n w =
           (Inr (n + length (non_skipped (config_transform e) (drop skip (source w)))), w') \<and>
      page_reads w' = page_reads w @
         map (\<lambda>i. (skip + i * batchSize, batchSize))
           [0..<Suc (ceil_div (length (source w) - skip) batchSize)] \<and>
      (\<exists>ws. index_calls w' = index_calls w @ map AddDocuments ws \<and> [] \<notin> set ws \<and>
            concat ws = non_skipped (config_transform e) (drop skip (source w))) \<and>
      index w' = fold upsert (non_skipped (config_transform e) (drop skip (source w))) (index w) \<and>
      source w' = source w \<and> listeners w' = listeners w \<and> timers w' = timers w \<and>
      opened w' = opened w \<and> index_present w' = index_present w"
  using assms
proof (induction "length (source w) - skip" arbitrary: skip n w rule: less_induct)
  case less
  let ?t = "config_transform e"
  have B: "0 < batchSize" by (simp add: batchSize_def)
  show ?case
  proof (cases "skip < length (source w)")
    case False
    then have "bulk_loop e skip n w = (Inr n, w\<lparr>page_reads := page_reads w @ [(skip, batchSize)]\<rparr>)"
      by (simp add: bulk_loop_end)
    moreover from False have "drop skip (source w) = []" "length (source w) - skip = 0"
      by simp_all
    ultimately show ?thesis
      using B by (simp add: ceil_div_0)
  next
    case True
    let ?docs = "find_page (source w) skip batchSize"
    let ?documents = "non_skipped ?t ?docs"
    let ?rest = "non_skipped ?t (drop (skip + batchSize) (source w))"
    let ?w1 = "w\<lparr>page_reads := page_reads w @ [(skip, batchSize)]\<rparr>"
    have split: "non_skipped ?t (drop skip (source w)) = ?documents @ ?rest"
      using page_split[of "source w" skip] non_skipped_append[of ?t ?docs] by metis
    have less': "length (source w) - (skip + batchSize) < length (source w) - skip"
      using True B by simp
    have cd: "ceil_div (length (source w) - skip) batchSize
            = Suc (ceil_div (length (source w) - (skip + batchSize)) batchSize)"
      using ceil_div_step[OF B, of "length (source w) - skip"] True by simp
    note eq = bulk_loop_page[OF True less.prems, of n]
    show ?thesis
    proof (cases "?documents = []")
      case True
      then have step: "bulk_loop e skip n w = bulk_loop e (skip + batchSize) n ?w1"
        using eq by (simp add: Let_def)
      have "length (source ?w1) - (skip + batchSize) < length (source w) - skip"
        using less' by simp
      from less.hyps[OF this, of n] less.prems
      obtain w' ws where
        r: "bulk_loop e (skip + batchSize) n ?w1 = (Inr (n + length ?rest), w')"
        and p: "page_reads w' = page_reads ?w1 @ map (\<lambda>i. (skip + batchSize + i * batchSize, batchSize))
           [0..<Suc (ceil_div (length (source w) - (skip + batchSize)) batchSize)]"
        and c: "index_calls w' = index_calls w @ map AddDocuments ws" "[] \<notin> set ws" "concat ws = ?rest"
        and i: "index w' = fold upsert ?rest (index w)"
        and f: "source w' = source w" "listeners w' = listeners w" "timers w' = timers w"
               "opened w' = opened w" "index_present w' = index_present w"
        by auto
      have "page_reads w' = page_reads w @ map (\<lambda>i. (skip + i * batchSize, batchSize))
           [0..<Suc (ceil_div (length (source w) - skip) batchSize)]"
        using p by (simp only: cd reads_shift[of skip batchSize]) simp
      with r c i f True step split show ?thesis
        by (intro exI[of _ w']) auto
    next
      case False
      let ?w2 = "say (Loaded (n + length ?documents))
                   (?w1\<lparr>index_calls := index_calls w @ [AddDocuments ?documents],
                       index := fold upsert ?documents (index w)\<rparr>)"
      from False have step: "bulk_loop e skip n w
           = bulk_loop e (skip + batchSize) (n + length ?documents) ?w2"
        using eq by (simp add: Let_def)
      have "length (source ?w2) - (skip + batchSize) < length (source w) - skip"
        using less' by (simp add: say_def)
      from less.hyps[OF this, of "n + length ?documents"] less.prems
      obtain w' ws where
        r: "bulk_loop e (skip + batchSize) (n + length ?documents) ?w2
              = (Inr (n + length ?documents + length ?rest), w')"
        and p: "page_reads w' = page_reads ?w1 @ map (\<lambda>i. (skip + batchSize + i * batchSize, batchSize))
           [0..<Suc (ceil_div (length (source w) - (skip + batchSize)) batchSize)]"
        and c: "index_calls w' = (index_calls w @ [AddDocuments ?documents]) @ map AddDocuments ws"
               "[] \<notin> set ws" "concat ws = ?rest"
        and i: "index w' = fold upsert ?rest (fold upsert ?documents (index w))"
        and f: "source w' = source w" "listeners w' = listeners w" "timers w' = timers w"
               "opened w' = opened w" "index_present w' = index_present w"
        by (auto simp: say_def)
      have pr: "page_reads w' = page_reads w @ map (\<lambda>i. (skip + i * batchSize, batchSize))
           [0..<Suc (ceil_div (length (source w) - skip) batchSize)]"
        using p by (simp only: cd reads_shift[of skip batchSize]) simp
      have cs: "index_calls w' = index_calls w @ map AddDocuments (?documents # ws)"
        "[] \<notin> set (?documents # ws)" "concat (?documents # ws) = ?documents @ ?rest"
        using c False by auto
      from r pr cs i f step split show ?thesis
        by (intro exI[of _ w']) (auto simp del: upt_Suc intro: exI[of _ "?documents # ws"])
    qed
  qed
qed


lemma upsert_new:
  "doc_key v = Some k \<Longrightarrow> k \<notin> fst ` set idx \<Longrightarrow> upsert v idx = idx @ [(k, v)]"
  by (induction idx) (auto simp: upsert_def)

lemma fold_upsert_new:
  assumes "distinct (map doc_key vs)" and "None \<notin> set (map doc_key vs)"
    and "\<forall>v\<in>set vs. \<forall>k. doc_key v = Some k \<longrightarrow> k \<notin> fst ` set idx"
  shows "fold upsert vs idx = idx @ map (\<lambda>v. (the (doc_key v), v)) vs"
  using assms
proof (induction vs arbitrary: idx)
  case Nil
  then show ?case by simp
next
  case (Cons v vs)
  from Cons.prems(2) have "doc_key v \<noteq> None" by auto
  then obtain k where k: "doc_key v = Some k" by blast
  with Cons.prems(3) have "k \<notin> fst ` set idx" by simp
  with k have u: "upsert v idx = idx @ [(k, v)]" by (rule upsert_new)
  have "\<forall>x\<in>set vs. \<forall>j. doc_key x = Some j \<longrightarrow> j \<notin> fst ` set (idx @ [(k, v)])"
  proof (intro ballI allI impI)
    fix x j assume x: "x \<in> set vs" and j: "doc_key x = Some j"
    with Cons.prems(3) have "j \<notin> fst ` set idx" by simp
    moreover have "j \<noteq> k"
    proof
      assume "j = k"
      with j k have "doc_key v = doc_key x" by simp
      with x Cons.prems(1) show False by (auto simp: image_iff)
    qed
    ultimately show "j \<notin> fst ` set (idx @ [(k, v)])" by auto
  qed
  with Cons.IH[of "idx @ [(k, v)]"] Cons.prems(1,2) u k show ?case by simp
qed

lemma empty_page_iff: "find_page coll skip batchSize = [] \<longleftrightarrow> length coll \<le> skip"
  by (simp add: find_page_def batchSize_def)

lemma ceil_div_bounds:
  assumes "0 < b"
  shows "n \<le> ceil_div n b * b" and "i < ceil_div n b \<Longrightarrow> i * b < n"
proof -
  have le: "ceil_div m b * b \<ge> m" for m
  proof -
    have "(m + b - 1) mod b < b" using assms by simp
    moreover have "(m + b - 1) div b * b + (m + b - 1) mod b = m + b - 1" by simp
    ultimately have "(m + b - 1) div b * b + b > m + b - 1" by linarith
    then show ?thesis using assms by (simp add: ceil_div_def)
  qed
  show "n \<le> ceil_div n b * b" by (rule le)
  assume i: "i < ceil_div n b"
  have "ceil_div n b * b \<le> n + b - 1"
    by (simp add: ceil_div_def)
  moreover from i have "Suc i * b \<le> ceil_div n b * b"
    by (simp add: Suc_leI mult_le_mono1 del: mult_Suc)
  ultimately have "i * b + b \<le> n + b - 1" by simp
  with assms show "i * b < n" by linarith
qed

lemma bulk_loop_frame:
  "bulk_loop e skip n w = (r, w') \<Longrightarrow>
     source w' = source w \<and> listeners w' = listeners w \<and> timers w' = timers w \<and>
     opened w' = opened w"
proof (induction "length (source w) - skip" arbitrary: skip n w rule: less_induct)
  case less
  show ?case
  proof (cases "skip < length (source w)")
    case False
    with less.prems show ?thesis by (auto simp: bulk_loop_end)
  next
    case True
    have B: "0 < batchSize" by (simp add: batchSize_def)
    have d: "length (source w2) - (skip + batchSize) < length (source w) - skip"
      if "source w2 = source w" for w2 :: world
      using that True B by simp
    from less.prems show ?thesis
      apply (subst (asm) bulk_loop.simps)
      apply (auto simp: Let_def index_call_def say_def split: if_splits sum.splits option.splits
          dest!: less.hyps[OF d, rotated])
      done
  qed
qed


lemma transform_id_only:
  "transform stub_engine id_only =
     Inr (Obj [(''id'', Str ''65a1b2c3d4e5f60718293a4b''), (''code'', Null), (''name'', Null),
         (''price'', Num (Fin 0)), (''balance'', Num (Fin 0)), (''measure'', Null),
         (''userId'', Null), (''specOfferId'', Null), (''priceId'', Null), (''category'', Arr []),
         (''region'', Arr []), (''date'', Null)])"
  by (simp add: id_only_def transform_def property_def call_toString_def ref_string_def
      string_array_def date_timestamp_def js_or_def)

lemma min_pages:
  assumes "0 < b" and "b \<le> r"
  shows "b + min (Suc i * b) (r - b) = min (Suc (Suc i) * b) r"
proof -
  have "Suc (Suc i) * b = b + Suc i * b" by simp
  then show ?thesis using assms unfolding min_def by auto
qed

lemma bulk_loop_unfold:
  assumes "skip < length (source w)"
  shows "bulk_loop e skip n w =
     (case collect (map (config_transform e) (find_page (source w) skip batchSize)) of
        Inl err \<Rightarrow> (Inl err, w\<lparr>page_reads := page_reads w @ [(skip, batchSize)]\<rparr>)
      | Inr results \<Rightarrow>
          if filter truthy results \<noteq> []
          then
            (case index_call e (AddDocuments (filter truthy results))
                   (w\<lparr>page_reads := page_reads w @ [(skip, batchSize)]\<rparr>) of
               (Inl err, w2) \<Rightarrow> (Inl err, w2)
             | (Inr u, w2) \<Rightarrow>
                 bulk_loop e (skip + batchSize) (n + length (filter truthy results))
                   (say (Loaded (n + length (filter truthy results))) w2))
          else bulk_loop e (skip + batchSize) n
                 (w\<lparr>page_reads := page_reads w @ [(skip, batchSize)]\<rparr>))"
  using find_page_nonempty[OF assms]
  by (subst bulk_loop.simps) (simp add: Let_def split: sum.splits)

lemma non_skipped_all:
  "\<forall>d\<in>set ds. \<exists>v. t d = Inr v \<and> truthy v \<Longrightarrow> length (non_skipped t ds) = length ds"
  by (induction ds) auto

lemma collect_members:
  "collect (map t ds) = Inr results \<Longrightarrow> \<forall>d\<in>set ds. \<exists>v. t d = Inr v"
  using collect_Inr_iff[of "map t ds"] by auto

lemma bulk_loop_counts_all:
  assumes "bulk_loop e skip n w = (Inr t, w')"
    and "\<forall>d v. config_transform e d = Inr v \<longrightarrow> truthy v"
  shows "t = n + (length (source w) - skip) \<and>
     console w' = console w @
        map (\<lambda>i. Loaded (n + min (Suc i * batchSize) (length (source w) - skip)))
          [0..<ceil_div (length (source w) - skip) batchSize]"
  using assms
proof (induction "length (source w) - skip" arbitrary: skip n w rule: less_induct)
  case less
  have B: "0 < batchSize" by (simp add: batchSize_def)
  let ?t = "config_transform e"
  show ?case
  proof (cases "skip < length (source w)")
    case False
    with less.prems(1) B show ?thesis by (auto simp: bulk_loop_end ceil_div_0)
  next
    case True
    let ?docs = "find_page (source w) skip batchSize"
    let ?r = "length (source w) - skip"
    let ?m = "min batchSize ?r"
    let ?w1 = "w\<lparr>page_reads := page_reads w @ [(skip, batchSize)]\<rparr>"
    note run = less.prems(1)[unfolded bulk_loop_unfold[OF True]]
    have len: "length ?docs = ?m"
      by (simp add: find_page_def)
    obtain results where c: "collect (map ?t ?docs) = Inr results"
      using run by (cases "collect (map ?t ?docs)") simp_all
    have "\<forall>d\<in>set ?docs. \<exists>v. ?t d = Inr v \<and> truthy v"
      using collect_members[OF c] less.prems(2) by blast
    then have "length (non_skipped ?t ?docs) = length ?docs"
      by (rule non_skipped_all)
    then have keep: "length (filter truthy results) = ?m"
      using collect_non_skipped[OF c] len by simp
    have "0 < ?m" using True B by simp
    with keep have fne: "filter truthy results \<noteq> []" by auto
    let ?documents = "filter truthy results"
    note run2 = run[unfolded c sum.case if_P[OF fne] keep]
    obtain x w2 where ic: "index_call e (AddDocuments ?documents) ?w1 = (x, w2)"
      by (cases "index_call e (AddDocuments ?documents) ?w1") blast
    have rec: "bulk_loop e (skip + batchSize) (n + ?m) (say (Loaded (n + ?m)) w2) = (Inr t, w')"
      using run2 unfolding ic by (cases x) simp_all
    from ic have s2: "source w2 = source w" "console w2 = console w"
      by (auto simp: index_call_def Let_def split: option.splits)
    then have "length (source (say (Loaded (n + ?m)) w2)) - (skip + batchSize) < ?r"
      using True B by (simp add: say_def)
    from less.hyps[OF this rec less.prems(2)] s2
    have t: "t = n + ?m + (length (source w) - (skip + batchSize))"
      and l: "console w' = (console w @ [Loaded (n + ?m)]) @
        map (\<lambda>i. Loaded (n + ?m + min (Suc i * batchSize) (length (source w) - (skip + batchSize))))
          [0..<ceil_div (length (source w) - (skip + batchSize)) batchSize]"
      by (simp_all add: say_def)
    have cd: "ceil_div ?r batchSize = Suc (ceil_div (?r - batchSize) batchSize)"
      using ceil_div_step[OF B, of ?r] True by simp
    have tail: "map (\<lambda>i. Loaded (n + ?m + min (Suc i * batchSize) (?r - batchSize)))
                  [0..<ceil_div (?r - batchSize) batchSize]
              = map (\<lambda>i. Loaded (n + min (Suc (Suc i) * batchSize) ?r))
                  [0..<ceil_div (?r - batchSize) batchSize]"
    proof (cases "batchSize \<le> ?r")
      case True
      then have "?m = batchSize" by simp
      then have "n + ?m + min (Suc i * batchSize) (?r - batchSize) = n + min (Suc (Suc i) * batchSize) ?r" for i
        using min_pages[OF B True, of i] by (simp only: add.assoc)
      then show ?thesis by (simp only:)
    next
      case False
      then have "?r - batchSize = 0" by simp
      then show ?thesis using B by (simp only: ceil_div_0) simp
    qed
    have r': "length (source w) - (skip + batchSize) = ?r - batchSize" by simp
    note l2 = l[unfolded r' tail]
    have "console w' = console w @
        map (\<lambda>i. Loaded (n + min (Suc i * batchSize) ?r)) [0..<ceil_div ?r batchSize]"
      unfolding l2 cd map_upt_Suc by simp
    moreover from t have "t = n + ?r" using True by (simp add: min_def split: if_splits)
    ultimately show ?thesis by (simp only: simp_thms)
  qed
qed


lemma collect_results:
  "collect (map t ds) = Inr results \<Longrightarrow> \<forall>v\<in>set results. \<exists>d\<in>set ds. t d = Inr v"
proof (induction ds arbitrary: results)
  case Nil
  then show ?case by simp
next
  case (Cons a ds)
  then show ?case by (cases "t a") (auto split: sum.splits)
qed

lemma bulk_load_sample:
  "\<exists>w'. bulk_load sample_env (fresh_world [id_only]) = (Inr 1, w')"
proof -
  have 1: "\<forall>r\<in>set (source (say InitialSyncStarted (fresh_world [id_only]))).
             \<exists>v. config_transform sample_env r = Inr v"
    by (simp add: say_def fresh_world_def sample_env_def transform_id_only)
  have 2: "\<forall>k op. write_error sample_env k op = None"
    by (simp add: sample_env_def)
  from bulk_loop_completes[OF 1 2, of 0 0] show ?thesis
    by (auto simp: bulk_load_def say_def fresh_world_def sample_env_def transform_id_only)
qed

section \<open>Claims about the bulk load\<close>

text \<open>
  Claim C1, as amended. The loop ends on the first page that comes back empty, so the
  pass reads \<open>ceil_div N 5000\<close> pages that hold records and then one more, which is
  empty: \<open>ceil_div N 5000 + 1\<close> page reads in all, at the offsets 0, 5000, 10000 and so
  on, not \<open>ceil_div N 5000\<close> as the claim says. And the pass does not clear the index:
  it upserts into whatever the index held. What holds, when the transform throws on
  no record of the collection and no write to the index fails: the pass returns, with
  the number of transformed, non-skipped records as its total; it has issued exactly
  those page reads; it has submitted exactly the transformed, non-skipped records, in
  order and in non-empty batches; and the index is the index as it was with these
  documents upserted. From an empty index, and when the documents have pairwise
  different ids, the index then holds exactly these documents.
\<close>

theorem bulk_load_pages_and_index:
  assumes "\<forall>r\<in>set (source w). \<exists>v. config_transform e r = Inr v"
    and "\<forall>k op. write_error e k op = None"
  shows "\<exists>w'. bulk_load e w = (Inr (length (non_skipped (config_transform e) (source w))), w') \<and>
      page_reads w' = page_reads w @
         map (\<lambda>i. (i * batchSize, batchSize)) [0..<ceil_div (length (source w)) batchSize + 1] \<and>
      (\<forall>i<ceil_div (length (source w)) batchSize.
          find_page (source w) (i * batchSize) batchSize \<noteq> []) \<and>
      find_page (source w) (ceil_div (length (source w)) batchSize * batchSize) batchSize = [] \<and>
      (\<exists>ws. index_calls w' = index_calls w @ map AddDocuments ws \<and> [] \<notin> set ws \<and>
            concat ws = non_skipped (config_transform e) (source w)) \<and>
      index w' = fold upsert (non_skipped (config_transform e) (source w)) (index w) \<and>
      (index w = [] \<and> distinct (map doc_key (non_skipped (config_transform e) (source w))) \<and>
       None \<notin> set (map doc_key (non_skipped (config_transform e) (source w))) \<longrightarrow>
         map snd (index w') = non_skipped (config_transform e) (source w))"
proof -
  let ?w0 = "say InitialSyncStarted w"
  let ?docs = "non_skipped (config_transform e) (source w)"
  have B: "0 < batchSize" by (simp add: batchSize_def)
  have s: "source ?w0 = source w" by (simp add: say_def)
  from assms have "\<forall>r\<in>set (source ?w0). \<exists>v. config_transform e r = Inr v"
    by (simp add: say_def)
  from bulk_loop_completes[OF this assms(2), of 0 0]
  obtain w' ws where
    r: "bulk_loop e 0 0 ?w0 = (Inr (length ?docs), w')"
    and p: "page_reads w' = page_reads w @
         map (\<lambda>i. (i * batchSize, batchSize)) [0..<Suc (ceil_div (length (source w)) batchSize)]"
    and c: "index_calls w' = index_calls w @ map AddDocuments ws" "[] \<notin> set ws" "concat ws = ?docs"
    and i: "index w' = fold upsert ?docs (index w)"
    by (auto simp: say_def)
  have full: "\<forall>i<ceil_div (length (source w)) batchSize.
          find_page (source w) (i * batchSize) batchSize \<noteq> []"
    using ceil_div_bounds(2)[OF B] by (auto simp: empty_page_iff not_le)
  have last: "find_page (source w) (ceil_div (length (source w)) batchSize * batchSize) batchSize = []"
    using ceil_div_bounds(1)[OF B] by (simp add: empty_page_iff)
  have exact: "map snd (index w') = ?docs"
    if "index w = []" "distinct (map doc_key ?docs)" "None \<notin> set (map doc_key ?docs)"
    using that i fold_upsert_new[of ?docs "[]"] by (simp add: comp_def)
  from r p c i full last exact show ?thesis
    unfolding bulk_load_def
    by (intro exI[of _ w']) (auto simp del: upt_Suc)
qed

text \<open>The theorem of C1 at a collection of one record and an empty index.\<close>

theorem bulk_load_pages_and_index_witness:
  "\<exists>w'. bulk_load sample_env (fresh_world [id_only]) = (Inr 1, w') \<and>
      page_reads w' = [(0, 5000), (5000, 5000)] \<and>
      map fst (index w') = [''65a1b2c3d4e5f60718293a4b'']"
proof -
  have 1: "\<forall>r\<in>set (source (fresh_world [id_only])). \<exists>v. config_transform sample_env r = Inr v"
    by (simp add: fresh_world_def sample_env_def transform_id_only)
  have 2: "\<forall>k op. write_error sample_env k op = None"
    by (simp add: sample_env_def)
  have 3: "non_skipped (config_transform sample_env) (source (fresh_world [id_only]))
     = [Obj [(''id'', Str ''65a1b2c3d4e5f60718293a4b''), (''code'', Null), (''name'', Null),
         (''price'', Num (Fin 0)), (''balance'', Num (Fin 0)), (''measure'', Null),
         (''userId'', Null), (''specOfferId'', Null), (''priceId'', Null), (''category'', Arr []),
         (''region'', Arr []), (''date'', Null)]]"
    by (simp add: fresh_world_def sample_env_def transform_id_only)
  have 4: "[0..<ceil_div (length (source (fresh_world [id_only]))) batchSize + 1] = [0, 1]"
    by (simp add: fresh_world_def ceil_div_def batchSize_def upt_rec)
  from bulk_load_pages_and_index[OF 1 2] obtain w' where
    "bulk_load sample_env (fresh_world [id_only]) = (Inr 1, w')"
    "page_reads w' = page_reads (fresh_world [id_only]) @ map (\<lambda>i. (i * batchSize, batchSize)) [0, 1]"
    "index w' = fold upsert [Obj [(''id'', Str ''65a1b2c3d4e5f60718293a4b''), (''code'', Null), (''name'', Null),
         (''price'', Num (Fin 0)), (''balance'', Num (Fin 0)), (''measure'', Null),
         (''userId'', Null), (''specOfferId'', Null), (''priceId'', Null), (''category'', Arr []),
         (''region'', Arr []), (''date'', Null)]] (index (fresh_world [id_only]))"
    unfolding 3 4 by auto
  then show ?thesis
    by (intro exI[of _ w'])
       (simp add: fresh_world_def batchSize_def upsert_def doc_key_def property_def)
qed

text \<open>
  Counterexample to C1 as stated: a collection of one record, and an index that holds
  a document from before. The pass reads two pages where \<open>ceil_div 1 5000 = 1\<close>, and
  afterwards the index holds the old document beside the transformed record.
\<close>

theorem bulk_load_reads_one_more:
  "page_reads (snd (bulk_load sample_env stale_world)) = [(0, 5000), (5000, 5000)] \<and>
   length (source stale_world) = 1 \<and> ceil_div 1 batchSize = 1 \<and>
   map fst (index (snd (bulk_load sample_env stale_world))) = [''old'', ''65a1b2c3d4e5f60718293a4b''] \<and>
   transform stub_engine id_only \<noteq> Inr stale_doc"
proof -
  have 1: "\<forall>r\<in>set (source stale_world). \<exists>v. config_transform sample_env r = Inr v"
    by (simp add: stale_world_def fresh_world_def sample_env_def transform_id_only)
  have 2: "\<forall>k op. write_error sample_env k op = None"
    by (simp add: sample_env_def)
  have 3: "non_skipped (config_transform sample_env) (drop 0 (source stale_world))
     = [Obj [(''id'', Str ''65a1b2c3d4e5f60718293a4b''), (''code'', Null), (''name'', Null),
         (''price'', Num (Fin 0)), (''balance'', Num (Fin 0)), (''measure'', Null),
         (''userId'', Null), (''specOfferId'', Null), (''priceId'', Null), (''category'', Arr []),
         (''region'', Arr []), (''date'', Null)]]"
    by (simp add: stale_world_def fresh_world_def sample_env_def transform_id_only)
  have 4: "[0..<Suc (ceil_div (length (source stale_world) - 0) batchSize)] = [0, 1]"
    by (simp add: stale_world_def fresh_world_def ceil_div_def batchSize_def upt_rec)
  have 6: "\<forall>r\<in>set (source (say InitialSyncStarted stale_world)). \<exists>v. config_transform sample_env r = Inr v"
    using 1 by (simp add: say_def)
  have 5: "source (say InitialSyncStarted stale_world) = source stale_world"
    by (simp add: say_def)
  from bulk_loop_completes[OF 6 2, of 0 0] obtain w' where
    "bulk_loop sample_env 0 0 (say InitialSyncStarted stale_world) = (Inr (0 + 1), w')"
    "page_reads w' = page_reads (say InitialSyncStarted stale_world) @
         map (\<lambda>i. (0 + i * batchSize, batchSize)) [0, 1]"
    "index w' = fold upsert [Obj [(''id'', Str ''65a1b2c3d4e5f60718293a4b''), (''code'', Null), (''name'', Null),
         (''price'', Num (Fin 0)), (''balance'', Num (Fin 0)), (''measure'', Null),
         (''userId'', Null), (''specOfferId'', Null), (''priceId'', Null), (''category'', Arr []),
         (''region'', Arr []), (''date'', Null)]] (index (say InitialSyncStarted stale_world))"
    unfolding 5 3 4 by auto
  then have "page_reads (snd (bulk_load sample_env stale_world)) = [(0, 5000), (5000, 5000)]"
    and "map fst (index (snd (bulk_load sample_env stale_world))) = [''old'', ''65a1b2c3d4e5f60718293a4b'']"
    by (simp_all add: bulk_load_def say_def stale_world_def fresh_world_def batchSize_def
        upsert_def doc_key_def property_def)
  moreover have "length (source stale_world) = 1"
    by (simp add: stale_world_def fresh_world_def)
  moreover have "ceil_div 1 batchSize = 1"
    by (simp add: ceil_div_def batchSize_def)
  moreover have "transform stub_engine id_only \<noteq> Inr stale_doc"
    by (simp add: transform_id_only stale_doc_def)
  ultimately show ?thesis by simp
qed

text \<open>
  Claim C9. The configured transform returns an object whenever it returns, and an
  object is truthy. So \<^verbatim>\<open>filter(Boolean)\<close> keeps every result of a page; and when the
  bulk load returns, its total is the number of records of the collection, and the
  totals it has printed, page after page, are the numbers of records read so far.
\<close>

theorem configured_transform_never_skips:
  assumes "config_transform e = transform b"
  shows "(\<forall>d v. transform b d = Inr v \<longrightarrow> truthy v) \<and>
     (\<forall>ds results. collect (map (config_transform e) ds) = Inr results \<longrightarrow>
         filter truthy results = results) \<and>
     (\<forall>ntotal w'. bulk_load e w = (Inr ntotal, w') \<longrightarrow>
         ntotal = length (source w) \<and>
         console w' = console w @ InitialSyncStarted #
            map (\<lambda>i. Loaded (min (Suc i * batchSize) (length (source w))))
              [0..<ceil_div (length (source w)) batchSize])"
proof -
  have tr: "\<forall>d v. config_transform e d = Inr v \<longrightarrow> truthy v"
    using assms transform_truthy by simp
  have "filter truthy results = results"
    if "collect (map (config_transform e) ds) = Inr results" for ds results
    using collect_results[OF that] tr by (auto intro: filter_True)
  moreover have "ntotal = length (source w) \<and>
         console w' = console w @ InitialSyncStarted #
            map (\<lambda>i. Loaded (min (Suc i * batchSize) (length (source w))))
              [0..<ceil_div (length (source w)) batchSize]"
    if "bulk_load e w = (Inr ntotal, w')" for ntotal w'
    using bulk_loop_counts_all[OF that[unfolded bulk_load_def] tr] by (simp add: say_def)
  ultimately show ?thesis
    using transform_truthy by blast
qed

text \<open>The theorem of C9 at a collection of one record.\<close>

theorem configured_transform_never_skips_witness:
  "\<exists>w'. bulk_load sample_env (fresh_world [id_only]) = (Inr 1, w') \<and>
        length (source (fresh_world [id_only])) = 1 \<and>
        console w' = [InitialSyncStarted, Loaded 1]"
proof -
  have 1: "config_transform sample_env = transform stub_engine"
    by (simp add: sample_env_def)
  obtain w' where 2: "bulk_load sample_env (fresh_world [id_only]) = (Inr 1, w')"
    using bulk_load_sample by blast
  have 3: "[0..<ceil_div (length (source (fresh_world [id_only]))) batchSize] = [0]"
    by (simp add: fresh_world_def ceil_div_def batchSize_def)
  from configured_transform_never_skips[OF 1, of "fresh_world [id_only]"] 2
  have "console w' = console (fresh_world [id_only]) @ InitialSyncStarted #
            map (\<lambda>i. Loaded (min (Suc i * batchSize) (length (source (fresh_world [id_only])))))
              [0..<ceil_div (length (source (fresh_world [id_only]))) batchSize]"
    by blast
  then have "console w' = [InitialSyncStarted, Loaded 1]"
    unfolding 3 by (simp add: fresh_world_def batchSize_def)
  with 2 show ?thesis
    by (intro exI[of _ w']) (simp add: fresh_world_def)
qed

section \<open>Properties of the change handler\<close>

lemma index_call_frame:
  "index_call e op w = (r, w') \<Longrightarrow>
     index_calls w' = index_calls w @ [op] \<and> console w' = console w \<and>
     listeners w' = listeners w \<and> timers w' = timers w \<and> opened w' = opened w \<and>
     source w' = source w \<and> page_reads w' = page_reads w \<and> index_present w' = index_present w"
  by (auto simp: index_call_def Let_def split: option.splits)

lemma upsert_branch_frame:
  "upsert_branch e mk msg c docId w = (r, w') \<Longrightarrow>
     listeners w' = listeners w \<and> timers w' = timers w \<and> opened w' = opened w \<and>
     source w' = source w \<and> page_reads w' = page_reads w \<and> index_present w' = index_present w"
  by (auto simp: upsert_branch_def say_def split: option.splits sum.splits if_splits prod.splits
      dest!: index_call_frame)

lemma delete_branch_frame:
  "delete_branch e docId w = (r, w') \<Longrightarrow>
     listeners w' = listeners w \<and> timers w' = timers w \<and> opened w' = opened w \<and>
     source w' = source w \<and> page_reads w' = page_reads w \<and> index_present w' = index_present w"
  by (auto simp: delete_branch_def say_def split: sum.splits prod.splits dest!: index_call_frame)

lemma change_body_frame:
  "change_body e c w = (r, w') \<Longrightarrow>
     listeners w' = listeners w \<and> timers w' = timers w \<and> opened w' = opened w \<and>
     source w' = source w \<and> page_reads w' = page_reads w \<and> index_present w' = index_present w"
  by (auto simp: change_body_def split: sum.splits prod.splits if_splits
      dest!: upsert_branch_frame delete_branch_frame)

lemma on_change_frame:
  "listeners (on_change e c w) = listeners w \<and> timers (on_change e c w) = timers w \<and>
   opened (on_change e c w) = opened w \<and> source (on_change e c w) = source w \<and>
   page_reads (on_change e c w) = page_reads w"
proof -
  obtain r w' where b: "change_body e c w = (r, w')" by (cases "change_body e c w") blast
  from change_body_frame[OF b] b show ?thesis
    by (cases r) (simp_all add: on_change_def say_def)
qed


lemma upsert_branch_none:
  "fullDocument c = None \<Longrightarrow> upsert_branch e mk msg c docId w = (Inr (), w)"
  by (simp add: upsert_branch_def)

lemma upsert_branch_skip:
  "fullDocument c = Some d \<Longrightarrow> config_transform e d = Inr t \<Longrightarrow> \<not> truthy t \<Longrightarrow>
   upsert_branch e mk msg c docId w = (Inr (), w)"
  by (simp add: upsert_branch_def)

lemma upsert_branch_write:
  assumes "fullDocument c = Some d" and "config_transform e d = Inr t" and "truthy t"
    and "upsert_branch e mk msg c docId w = (r, w')"
  shows "index_calls w' = index_calls w @ [mk [t]] \<and>
     (write_error e (length (index_calls w)) (mk [t]) = None \<longrightarrow> index w' = apply_op (mk [t]) (index w)) \<and>
     (\<forall>err. write_error e (length (index_calls w)) (mk [t]) = Some err \<longrightarrow>
         r = Inl err \<and> w' = w\<lparr>index_calls := index_calls w @ [mk [t]]\<rparr>)"
  using assms
  by (auto simp: upsert_branch_def index_call_def say_def Let_def split: sum.splits option.splits)

lemma delete_branch_write:
  assumes "delete_branch e docId w = (r, w')"
  shows "index_calls w' = index_calls w @ [DeleteDocument docId] \<and>
     (write_error e (length (index_calls w)) (DeleteDocument docId) = None \<longrightarrow>
         index w' = AList.delete docId (index w)) \<and>
     (\<forall>err. write_error e (length (index_calls w)) (DeleteDocument docId) = Some err \<longrightarrow>
         r = Inl err \<and> w' = w\<lparr>index_calls := index_calls w @ [DeleteDocument docId]\<rparr>)"
  using assms
  by (auto simp: delete_branch_def index_call_def say_def Let_def split: option.splits)

lemma change_body_upsert:
  assumes "call_toString (engine e) (property (documentKey c) ''_id'') = Inr docId"
    and "operationType c \<noteq> Delete"
  shows "change_body e c w =
     upsert_branch e (if operationType c = Update then UpdateDocuments else AddDocuments)
       (if operationType c = Update then Updated else Added) c docId w"
proof -
  obtain r w' where a: "upsert_branch e AddDocuments Added c docId w = (r, w')"
    by (cases "upsert_branch e AddDocuments Added c docId w") blast
  obtain r2 w2 where u: "upsert_branch e UpdateDocuments Updated c docId w = (r2, w2)"
    by (cases "upsert_branch e UpdateDocuments Updated c docId w") blast
  show ?thesis
    using assms a u
    by (cases "operationType c"; cases r; cases r2) (simp_all add: change_body_def)
qed

lemma change_body_delete:
  assumes "call_toString (engine e) (property (documentKey c) ''_id'') = Inr docId"
    and "operationType c = Delete"
  shows "change_body e c w = delete_branch e docId w"
  using assms by (simp add: change_body_def)

lemma on_change_calls:
  "change_body e c w = (r, w') \<Longrightarrow>
     index_calls (on_change e c w) = index_calls w' \<and> index (on_change e c w) = index w'"
  by (cases r) (simp_all add: on_change_def say_def)

lemma docId_id_only:
  "call_toString b (property id_only ''_id'') = Inr ''65a1b2c3d4e5f60718293a4b''"
  by (simp add: id_only_def property_def call_toString_def)

lemma upsert_branch_one_call:
  assumes "upsert_branch e mk msg c docId w = (r, w')"
  shows "index_calls w' = index_calls w \<or>
     (\<exists>op. index_calls w' = index_calls w @ [op] \<and>
        (\<forall>err. write_error e (length (index_calls w)) op = Some err \<longrightarrow>
            r = Inl err \<and> w' = w\<lparr>index_calls := index_calls w @ [op]\<rparr>))"
  using assms
  by (auto simp: upsert_branch_def index_call_def say_def Let_def
      split: sum.splits option.splits if_splits)

lemma change_body_one_call:
  assumes "change_body e c w = (r, w')"
  shows "index_calls w' = index_calls w \<or>
     (\<exists>op. index_calls w' = index_calls w @ [op] \<and>
        (\<forall>err. write_error e (length (index_calls w)) op = Some err \<longrightarrow>
            r = Inl err \<and> w' = w\<lparr>index_calls := index_calls w @ [op]\<rparr>))"
proof (cases "call_toString (engine e) (property (documentKey c) ''_id'')")
  case (Inl err)
  with assms show ?thesis by (simp add: change_body_def)
next
  case (Inr docId)
  show ?thesis
  proof (cases "operationType c = Delete")
    case True
    with assms have "delete_branch e docId w = (r, w')"
      using change_body_delete[OF Inr True, of w] by simp
    from delete_branch_write[OF this] show ?thesis by blast
  next
    case False
    with assms have "upsert_branch e (if operationType c = Update then UpdateDocuments else AddDocuments)
       (if operationType c = Update then Updated else Added) c docId w = (r, w')"
      using change_body_upsert[OF Inr False, of w] by simp
    then show ?thesis by (rule upsert_branch_one_call)
  qed
qed

section \<open>Claims about the change handler\<close>

text \<open>
  Claim C5. When the write that a change event issues fails, the handler prints the
  error and ends: the state after the event is the state before it with the one
  write call issued (there is no second attempt), the index unchanged, and the error
  on the console. The listener stays attached, no timer is set (no restart), and the
  next event on the stream is handled as usual.
\<close>

theorem write_failure_contained:
  assumes "index_calls (on_change e c w) = index_calls w @ [op]"
    and "write_error e (length (index_calls w)) op = Some err"
  shows "on_change e c w = say (HandlerError err) (w\<lparr>index_calls := index_calls w @ [op]\<rparr>) \<and>
     (\<forall>s. s \<in> set (listeners w) \<longrightarrow>
        step e (Change s c) w = on_change e c w \<and>
        s \<in> set (listeners (step e (Change s c) w)) \<and>
        timers (step e (Change s c) w) = timers w \<and>
        (\<forall>c'. step e (Change s c') (step e (Change s c) w) = on_change e c' (on_change e c w)))"
proof -
  obtain r w' where b: "change_body e c w = (r, w')" by (cases "change_body e c w") blast
  from on_change_calls[OF b] assms(1) have calls: "index_calls w' = index_calls w @ [op]" by simp
  with change_body_one_call[OF b] assms(2)
  have "r = Inl err \<and> w' = w\<lparr>index_calls := index_calls w @ [op]\<rparr>" by auto
  with b have "on_change e c w = say (HandlerError err) (w\<lparr>index_calls := index_calls w @ [op]\<rparr>)"
    by (simp add: on_change_def)
  then show ?thesis
    using on_change_frame[of e c w] by simp
qed

text \<open>The theorem of C5 at an insert event whose write fails.\<close>

theorem write_failure_contained_witness:
  "on_change failing_env insert_event (fresh_world []) =
     (fresh_world [])\<lparr>index_calls := [AddDocuments [Obj [(''id'', Str ''65a1b2c3d4e5f60718293a4b''), (''code'', Null), (''name'', Null),
         (''price'', Num (Fin 0)), (''balance'', Num (Fin 0)), (''measure'', Null),
         (''userId'', Null), (''specOfferId'', Null), (''priceId'', Null), (''category'', Arr []),
         (''region'', Arr []), (''date'', Null)]]],
       console := [HandlerError (ServiceError ''index unavailable'')]\<rparr>"
proof -
  let ?doc = "Obj [(''id'', Str ''65a1b2c3d4e5f60718293a4b''), (''code'', Null), (''name'', Null),
         (''price'', Num (Fin 0)), (''balance'', Num (Fin 0)), (''measure'', Null),
         (''userId'', Null), (''specOfferId'', Null), (''priceId'', Null), (''category'', Arr []),
         (''region'', Arr []), (''date'', Null)]"
  have 1: "index_calls (on_change failing_env insert_event (fresh_world []))
         = index_calls (fresh_world []) @ [AddDocuments [?doc]]"
    by (simp add: on_change_def change_body_def upsert_branch_def index_call_def say_def
        failing_env_def sample_env_def insert_event_def docId_id_only transform_id_only
        fresh_world_def)
  have 2: "write_error failing_env (length (index_calls (fresh_world []))) (AddDocuments [?doc])
         = Some (ServiceError ''index unavailable'')"
    by (simp add: failing_env_def)
  from write_failure_contained[OF 1 2] show ?thesis
    by (simp add: say_def fresh_world_def)
qed

text \<open>
  Claim C6. For a change event whose \<^verbatim>\<open>documentKey\<close> carries an identifier that converts
  to the string \<open>docId\<close> (the first statement of the handler), and for any state:
  an insert or replace with a full document whose transform is a truthy value issues
  \<^verbatim>\<open>addDocuments\<close> of that one document, an update issues \<^verbatim>\<open>updateDocuments\<close> of it, and
  a write that succeeds stores the document under its own id; when the transform
  returns a falsy value, or the event has no full document, the handler changes
  nothing; a delete issues \<^verbatim>\<open>deleteDocument(docId)\<close>, which removes that id from the
  index when it succeeds, and the handler does then the same whatever the transform
  is: it does not call it.
\<close>

theorem change_dispatch:
  assumes "call_toString (engine e) (property (documentKey c) ''_id'') = Inr docId"
  shows
    "(\<forall>d t. operationType c \<in> {Insert, Replace} \<and> fullDocument c = Some d \<and>
            config_transform e d = Inr t \<and> truthy t \<longrightarrow>
         index_calls (on_change e c w) = index_calls w @ [AddDocuments [t]] \<and>
         (write_error e (length (index_calls w)) (AddDocuments [t]) = None \<longrightarrow>
            index (on_change e c w) = upsert t (index w))) \<and>
     (\<forall>d t. operationType c = Update \<and> fullDocument c = Some d \<and>
            config_transform e d = Inr t \<and> truthy t \<longrightarrow>
         index_calls (on_change e c w) = index_calls w @ [UpdateDocuments [t]] \<and>
         (write_error e (length (index_calls w)) (UpdateDocuments [t]) = None \<longrightarrow>
            index (on_change e c w) = upsert t (index w))) \<and>
     (\<forall>d t. operationType c \<noteq> Delete \<and> fullDocument c = Some d \<and>
            config_transform e d = Inr t \<and> \<not> truthy t \<longrightarrow>
         on_change e c w = w) \<and>
     (operationType c \<noteq> Delete \<and> fullDocument c = None \<longrightarrow> on_change e c w = w) \<and>
     (operationType c = Delete \<longrightarrow>
         index_calls (on_change e c w) = index_calls w @ [DeleteDocument docId] \<and>
         (write_error e (length (index_calls w)) (DeleteDocument docId) = None \<longrightarrow>
            index (on_change e c w) = AList.delete docId (index w)) \<and>
         (\<forall>t'. on_change (e\<lparr>config_transform := t'\<rparr>) c w = on_change e c w))"
proof (intro conjI allI impI)
  fix d t
  assume h: "operationType c \<in> {Insert, Replace} \<and> fullDocument c = Some d \<and>
            config_transform e d = Inr t \<and> truthy t"
  then have nd: "operationType c \<noteq> Delete" and nu: "operationType c \<noteq> Update" by auto
  obtain r w' where b: "change_body e c w = (r, w')" by (cases "change_body e c w") blast
  then have "upsert_branch e AddDocuments Added c docId w = (r, w')"
    using change_body_upsert[OF assms nd, of w] nu by simp
  from upsert_branch_write[OF _ _ _ this, of d t] h on_change_calls[OF b]
  show "index_calls (on_change e c w) = index_calls w @ [AddDocuments [t]]"
    and "write_error e (length (index_calls w)) (AddDocuments [t]) = None \<Longrightarrow>
            index (on_change e c w) = upsert t (index w)"
    by simp_all
next
  fix d t
  assume h: "operationType c = Update \<and> fullDocument c = Some d \<and>
            config_transform e d = Inr t \<and> truthy t"
  then have nd: "operationType c \<noteq> Delete" by auto
  obtain r w' where b: "change_body e c w = (r, w')" by (cases "change_body e c w") blast
  then have "upsert_branch e UpdateDocuments Updated c docId w = (r, w')"
    using change_body_upsert[OF assms nd, of w] h by simp
  from upsert_branch_write[OF _ _ _ this, of d t] h on_change_calls[OF b]
  show "index_calls (on_change e c w) = index_calls w @ [UpdateDocuments [t]]"
    and "write_error e (length (index_calls w)) (UpdateDocuments [t]) = None \<Longrightarrow>
            index (on_change e c w) = upsert t (index w)"
    by simp_all
next
  fix d t
  assume h: "operationType c \<noteq> Delete \<and> fullDocument c = Some d \<and>
            config_transform e d = Inr t \<and> \<not> truthy t"
  then show "on_change e c w = w"
    using change_body_upsert[OF assms, of w] upsert_branch_skip[of c d e t]
    by (simp add: on_change_def)
next
  assume h: "operationType c \<noteq> Delete \<and> fullDocument c = None"
  then show "on_change e c w = w"
    using change_body_upsert[OF assms, of w] upsert_branch_none[of c]
    by (simp add: on_change_def)
next
  assume h: "operationType c = Delete"
  obtain r w' where b: "change_body e c w = (r, w')" by (cases "change_body e c w") blast
  then have "delete_branch e docId w = (r, w')"
    using change_body_delete[OF assms h, of w] by simp
  from delete_branch_write[OF this] on_change_calls[OF b]
  show "index_calls (on_change e c w) = index_calls w @ [DeleteDocument docId]"
    and "write_error e (length (index_calls w)) (DeleteDocument docId) = None \<Longrightarrow>
            index (on_change e c w) = AList.delete docId (index w)"
    by simp_all
next
  fix t'
  assume h: "operationType c = Delete"
  have "change_body (e\<lparr>config_transform := t'\<rparr>) c w = delete_branch (e\<lparr>config_transform := t'\<rparr>) docId w"
    using change_body_delete[of "e\<lparr>config_transform := t'\<rparr>" c docId w] assms h by simp
  moreover have "delete_branch (e\<lparr>config_transform := t'\<rparr>) docId w = delete_branch e docId w"
    by (simp add: delete_branch_def index_call_def)
  ultimately show "on_change (e\<lparr>config_transform := t'\<rparr>) c w = on_change e c w"
    using change_body_delete[OF assms h, of w] by (simp add: on_change_def)
qed


text \<open>The theorem of C6 at an insert event and at a delete event.\<close>

theorem change_dispatch_witness:
  "index_calls (on_change sample_env insert_event (fresh_world [])) =
     [AddDocuments [Obj [(''id'', Str ''65a1b2c3d4e5f60718293a4b''), (''code'', Null), (''name'', Null),
         (''price'', Num (Fin 0)), (''balance'', Num (Fin 0)), (''measure'', Null),
         (''userId'', Null), (''specOfferId'', Null), (''priceId'', Null), (''category'', Arr []),
         (''region'', Arr []), (''date'', Null)]]] \<and>
   index_calls (on_change sample_env delete_event (fresh_world [])) =
     [DeleteDocument ''65a1b2c3d4e5f60718293a4b'']"
proof -
  have 1: "call_toString (engine sample_env) (property (documentKey insert_event) ''_id'')
             = Inr ''65a1b2c3d4e5f60718293a4b''"
    by (simp add: insert_event_def docId_id_only)
  have 2: "call_toString (engine sample_env) (property (documentKey delete_event) ''_id'')
             = Inr ''65a1b2c3d4e5f60718293a4b''"
    by (simp add: delete_event_def docId_id_only)
  have 3: "operationType insert_event \<in> {Insert, Replace} \<and> fullDocument insert_event = Some id_only \<and>
     config_transform sample_env id_only = Inr (Obj [(''id'', Str ''65a1b2c3d4e5f60718293a4b''), (''code'', Null), (''name'', Null),
         (''price'', Num (Fin 0)), (''balance'', Num (Fin 0)), (''measure'', Null),
         (''userId'', Null), (''specOfferId'', Null), (''priceId'', Null), (''category'', Arr []),
         (''region'', Arr []), (''date'', Null)]) \<and>
     truthy (Obj [(''id'', Str ''65a1b2c3d4e5f60718293a4b''), (''code'', Null), (''name'', Null),
         (''price'', Num (Fin 0)), (''balance'', Num (Fin 0)), (''measure'', Null),
         (''userId'', Null), (''specOfferId'', Null), (''priceId'', Null), (''category'', Arr []),
         (''region'', Arr []), (''date'', Null)])"
    by (simp add: insert_event_def sample_env_def transform_id_only)
  have 4: "operationType delete_event = Delete"
    by (simp add: delete_event_def)
  from change_dispatch[OF 1, of "fresh_world []"] 3
  have "index_calls (on_change sample_env insert_event (fresh_world [])) =
     index_calls (fresh_world []) @ [AddDocuments [Obj [(''id'', Str ''65a1b2c3d4e5f60718293a4b''), (''code'', Null), (''name'', Null),
         (''price'', Num (Fin 0)), (''balance'', Num (Fin 0)), (''measure'', Null),
         (''userId'', Null), (''specOfferId'', Null), (''priceId'', Null), (''category'', Arr []),
         (''region'', Arr []), (''date'', Null)]]]"
    by blast
  moreover from change_dispatch[OF 2, of "fresh_world []"] 4
  have "index_calls (on_change sample_env delete_event (fresh_world [])) =
     index_calls (fresh_world []) @ [DeleteDocument ''65a1b2c3d4e5f60718293a4b'']"
    by blast
  ultimately show ?thesis by (simp add: fresh_world_def)
qed

section \<open>Properties of the restart\<close>

lemma prepare_index_frame:
  "listeners (prepare_index w) = listeners w \<and> timers (prepare_index w) = timers w \<and>
   opened (prepare_index w) = opened w \<and> source (prepare_index w) = source w \<and>
   page_reads (prepare_index w) = page_reads w \<and> index (prepare_index w) = index w \<and>
   index_calls (prepare_index w) = index_calls w"
  by (simp add: prepare_index_def say_def)

lemma syncCollection_frame:
  assumes "syncCollection e w = (r, w')"
  shows "timers w' = timers w \<and> source w' = source w \<and>
     (listeners w' = listeners w \<or> listeners w' = listeners w @ [opened w])"
proof -
  obtain r1 w1 where b: "bulk_loop e 0 0 (say InitialSyncStarted (prepare_index w)) = (r1, w1)"
    by (cases "bulk_loop e 0 0 (say InitialSyncStarted (prepare_index w))") blast
  from bulk_loop_frame[OF b] prepare_index_frame[of w]
  have f: "source w1 = source w" "listeners w1 = listeners w" "timers w1 = timers w"
    "opened w1 = opened w"
    by (simp_all add: say_def)
  from assms b show ?thesis
    using f by (cases r1) (auto simp: syncCollection_def bulk_load_def attach_listener_def say_def)
qed

lemma syncCollection_completes:
  assumes "\<forall>r\<in>set (source w). \<exists>v. config_transform e r = Inr v"
    and "\<forall>k op. write_error e k op = None"
  shows "\<exists>w'. syncCollection e w = (Inr (), w') \<and>
      page_reads w' = page_reads w @
         map (\<lambda>i. (i * batchSize, batchSize)) [0..<ceil_div (length (source w)) batchSize + 1] \<and>
      index w' = fold upsert (non_skipped (config_transform e) (source w)) (index w) \<and>
      listeners w' = listeners w @ [opened w] \<and> opened w' = Suc (opened w) \<and>
      timers w' = timers w \<and> source w' = source w"
proof -
  let ?w0 = "say InitialSyncStarted (prepare_index w)"
  have s: "source ?w0 = source w"
    using prepare_index_frame[of w] by (simp add: say_def)
  with assms(1) have "\<forall>r\<in>set (source ?w0). \<exists>v. config_transform e r = Inr v" by simp
  from bulk_loop_completes[OF this assms(2), of 0 0] s
  obtain w1 where
    r: "bulk_loop e 0 0 ?w0 = (Inr (length (non_skipped (config_transform e) (source w))), w1)"
    and p: "page_reads w1 = page_reads ?w0 @
         map (\<lambda>i. (i * batchSize, batchSize)) [0..<Suc (ceil_div (length (source w)) batchSize)]"
    and i: "index w1 = fold upsert (non_skipped (config_transform e) (source w)) (index ?w0)"
    and f: "source w1 = source ?w0" "listeners w1 = listeners ?w0" "timers w1 = timers ?w0"
           "opened w1 = opened ?w0"
    by auto
  from r p i f prepare_index_frame[of w] show ?thesis
    by (simp add: syncCollection_def bulk_load_def attach_listener_def say_def del: upt_Suc)
qed

lemma on_error_fields:
  "console (on_error err w) = console w @ [ChangeStreamError err] \<and>
   timers (on_error err w) = timers w @ [(10000, SyncCollection)] \<and>
   listeners (on_error err w) = listeners w \<and> opened (on_error err w) = opened w \<and>
   source (on_error err w) = source w \<and> page_reads (on_error err w) = page_reads w \<and>
   index_calls (on_error err w) = index_calls w \<and> index (on_error err w) = index w"
  by (simp add: on_error_def say_def)

lemma stream_failure_fields:
  "console (stream_failure s err w) = console w @ [ChangeStreamError err] \<and>
   timers (stream_failure s err w) = timers w @ [(10000, SyncCollection)] \<and>
   listeners (stream_failure s err w) = removeAll s (listeners w) \<and>
   opened (stream_failure s err w) = opened w \<and> source (stream_failure s err w) = source w \<and>
   page_reads (stream_failure s err w) = page_reads w \<and>
   index_calls (stream_failure s err w) = index_calls w \<and>
   index (stream_failure s err w) = index w"
  using on_error_fields[of err w] by (simp add: stream_failure_def Let_def)

lemma run_task_keeps_count:
  assumes "listeners w = []" and "timers w = []"
  shows "length (listeners (run_task e t w)) + length (timers (run_task e t w)) \<le> 1"
proof -
  obtain r w' where s: "syncCollection e w = (r, w')" by (cases "syncCollection e w") blast
  from syncCollection_frame[OF s] assms
  have "length (listeners w') + length (timers w') \<le> 1" by auto
  with s show ?thesis
    by (cases t; cases r) (simp_all add: exit_process_def)
qed

lemma main_keeps_count:
  assumes "listeners w = []" and "timers w = []"
  shows "length (listeners (main e w)) + length (timers (main e w)) \<le> 1"
proof -
  let ?w = "say ConnectedMeili (say ConnectedMongo (say ConnectingMongo w))"
  obtain r w' where s: "syncCollection e ?w = (r, w')" by (cases "syncCollection e ?w") blast
  from syncCollection_frame[OF s] assms
  have "length (listeners w') + length (timers w') \<le> 1" by (auto simp: say_def)
  with s show ?thesis
    by (cases r) (auto simp: main_def Let_def exit_process_def say_def split: option.splits)
qed

lemma step_keeps_count:
  assumes "length (listeners w) + length (timers w) \<le> 1"
  shows "length (listeners (step e ev w)) + length (timers (step e ev w)) \<le> 1"
proof (cases ev)
  case (Change s c)
  with assms on_change_frame[of e c w] show ?thesis by simp
next
  case (StreamFailure s err)
  show ?thesis
  proof (cases "s \<in> set (listeners w)")
    case True
    with assms have "listeners w = [s]" "timers w = []"
      by (cases "listeners w"; cases "timers w"; auto)+
    with StreamFailure stream_failure_fields[of s err w] show ?thesis by simp
  next
    case False
    with StreamFailure assms show ?thesis by simp
  qed
next
  case TimerFires
  show ?thesis
  proof (cases "timers w")
    case Nil
    with TimerFires assms show ?thesis by simp
  next
    case (Cons p rest)
    with assms have e: "listeners w = []" "rest = []" by auto
    obtain delay t where p: "p = (delay, t)" by (cases p)
    from run_task_keeps_count[of "w\<lparr>timers := rest\<rparr>" e t] e
    have "length (listeners (run_task e t (w\<lparr>timers := rest\<rparr>)))
        + length (timers (run_task e t (w\<lparr>timers := rest\<rparr>))) \<le> 1"
      by simp
    with TimerFires Cons p show ?thesis by simp
  qed
next
  case Interrupt
  with assms show ?thesis by (simp add: exit_process_def)
qed

lemma fold_step_keeps_count:
  assumes "length (listeners w) + length (timers w) \<le> 1"
  shows "length (listeners (fold (step e) evs w)) + length (timers (fold (step e) evs w)) \<le> 1"
  using assms
proof (induction evs arbitrary: w)
  case Nil
  then show ?case by simp
next
  case (Cons ev evs)
  from step_keeps_count[OF Cons.prems] Cons.IH show ?case by simp
qed

lemma run_keeps_count:
  assumes "listeners w = []" and "timers w = []"
  shows "length (listeners (run e evs w)) + length (timers (run e evs w)) \<le> 1"
  using fold_step_keeps_count[OF main_keeps_count[OF assms]] by (simp add: run_def)

lemma run_snoc: "run e (evs @ [ev]) w = step e ev (run e evs w)"
  by (simp add: run_def)

lemma main_one_record:
  assumes "config_transform e = transform stub_engine" and "\<forall>k op. write_error e k op = None"
    and "connect_error e = None" and "health_error e = None"
  shows "listeners (main e (fresh_world [id_only])) = [0] \<and>
     opened (main e (fresh_world [id_only])) = 1 \<and>
     timers (main e (fresh_world [id_only])) = [] \<and>
     source (main e (fresh_world [id_only])) = [id_only] \<and>
     page_reads (main e (fresh_world [id_only])) = [(0, 5000), (5000, 5000)]"
proof -
  let ?w = "say ConnectedMeili (say ConnectedMongo (say ConnectingMongo (fresh_world [id_only])))"
  have 1: "\<forall>r\<in>set (source ?w). \<exists>v. config_transform e r = Inr v"
    using assms(1) by (simp add: say_def fresh_world_def transform_id_only)
  have 2: "[0..<ceil_div (length (source ?w)) batchSize + 1] = [0, 1]"
    by (simp add: say_def fresh_world_def ceil_div_def batchSize_def upt_rec)
  from syncCollection_completes[OF 1 assms(2)] obtain w' where
    "syncCollection e ?w = (Inr (), w')"
    "page_reads w' = page_reads ?w @ map (\<lambda>i. (i * batchSize, batchSize)) [0, 1]"
    "listeners w' = listeners ?w @ [opened ?w]" "opened w' = Suc (opened ?w)"
    "timers w' = timers ?w" "source w' = source ?w"
    unfolding 2 by blast
  then show ?thesis
    using assms(3,4) by (simp add: main_def Let_def say_def fresh_world_def batchSize_def)
qed

lemma restart_one_record:
  assumes "config_transform e = transform stub_engine" and "\<forall>k op. write_error e k op = None"
    and "connect_error e = None" and "health_error e = None"
  shows "listeners (run e [StreamFailure 0 err] (fresh_world [id_only])) = [] \<and>
         timers (run e [StreamFailure 0 err] (fresh_world [id_only])) = [(10000, SyncCollection)] \<and>
         listeners (run e [StreamFailure 0 err, TimerFires] (fresh_world [id_only])) = [1] \<and>
         page_reads (run e [StreamFailure 0 err, TimerFires] (fresh_world [id_only]))
           = [(0, 5000), (5000, 5000), (0, 5000), (5000, 5000)]"
proof -
  let ?w1 = "main e (fresh_world [id_only])"
  let ?w2 = "step e (StreamFailure 0 err) ?w1"
  note m = main_one_record[OF assms]
  have w2: "listeners ?w2 = []"
    "timers ?w2 = [(10000, SyncCollection)]" "opened ?w2 = 1" "source ?w2 = [id_only]"
    "page_reads ?w2 = [(0, 5000), (5000, 5000)]"
    using m stream_failure_fields[of 0 err ?w1] by simp_all
  let ?w2' = "?w2\<lparr>timers := []\<rparr>"
  have 1: "\<forall>r\<in>set (source ?w2'). \<exists>v. config_transform e r = Inr v"
    using assms(1) w2(4) by (simp add: transform_id_only)
  have 2: "[0..<ceil_div (length (source ?w2')) batchSize + 1] = [0, 1]"
    using w2(4) by (simp add: ceil_div_def batchSize_def upt_rec)
  from syncCollection_completes[OF 1 assms(2)] obtain w3 where
    s: "syncCollection e ?w2' = (Inr (), w3)"
    and l: "listeners w3 = listeners ?w2' @ [opened ?w2']"
    and p: "page_reads w3 = page_reads ?w2' @ map (\<lambda>i. (i * batchSize, batchSize)) [0, 1]"
    unfolding 2 by blast
  have "step e TimerFires ?w2 = w3"
    using w2(2) s by simp
  then have "run e [StreamFailure 0 err, TimerFires] (fresh_world [id_only]) = w3"
    by (simp add: run_def)
  moreover have "run e [StreamFailure 0 err] (fresh_world [id_only]) = ?w2"
    by (simp add: run_def)
  ultimately show ?thesis using l p w2 by (simp add: batchSize_def)
qed

section \<open>Claims about stream errors and the restart\<close>

text \<open>
  Claim C3. In every run of the program from a start with no listener and no timer,
  and after any sequence of events, at most one change stream is attached. A restart
  is pending only while no stream is attached: when the attached stream fails, it is
  closed and the one timer of the restart is set, so the prior listener is gone
  before the restarted \<^verbatim>\<open>syncCollection\<close> opens the next. The program has no statement
  that closes a stream; the failed stream is closed by the driver. What the program
  contributes is that it starts a pipeline only from \<^verbatim>\<open>main\<close> and from the error handler,
  sets one timer for an error, and attaches one stream in a pipeline.
\<close>

theorem at_most_one_listener:
  assumes "listeners w = []" and "timers w = []"
  shows "length (listeners (run e evs w)) \<le> 1 \<and>
     (timers (run e evs w) \<noteq> [] \<longrightarrow> listeners (run e evs w) = []) \<and>
     (\<forall>s err. s \<in> set (listeners (run e evs w)) \<longrightarrow>
        listeners (run e (evs @ [StreamFailure s err]) w) = [] \<and>
        timers (run e (evs @ [StreamFailure s err]) w) = [(10000, SyncCollection)])"
proof -
  note c = run_keeps_count[OF assms, of e evs]
  have a: "length (listeners (run e evs w)) \<le> 1" using c by simp
  have b: "listeners (run e evs w) = []" if "timers (run e evs w) \<noteq> []"
    using c that by (cases "timers (run e evs w)") auto
  have d: "listeners (run e (evs @ [StreamFailure s err]) w) = [] \<and>
        timers (run e (evs @ [StreamFailure s err]) w) = [(10000, SyncCollection)]"
    if "s \<in> set (listeners (run e evs w))" for s err
  proof -
    from that c have "listeners (run e evs w) = [s]" "timers (run e evs w) = []"
      by (cases "listeners (run e evs w)"; cases "timers (run e evs w)"; auto)+
    with stream_failure_fields[of s err "run e evs w"] show ?thesis
      by (simp add: run_snoc)
  qed
  from a b d show ?thesis by blast
qed

text \<open>
  The theorem of C3 at a run over a collection of one record: one listener after
  \<^verbatim>\<open>main\<close>, none and one timer after its stream has failed, one new listener after the
  timer has fired.
\<close>

theorem at_most_one_listener_witness:
  "listeners (run sample_env [] (fresh_world [id_only])) = [0] \<and>
   listeners (run sample_env [StreamFailure 0 cursor_lost] (fresh_world [id_only])) = [] \<and>
   timers (run sample_env [StreamFailure 0 cursor_lost] (fresh_world [id_only]))
     = [(10000, SyncCollection)] \<and>
   listeners (run sample_env [StreamFailure 0 cursor_lost, TimerFires] (fresh_world [id_only])) = [1]"
proof -
  have 1: "listeners (fresh_world [id_only]) = []" and 2: "timers (fresh_world [id_only]) = []"
    by (simp_all add: fresh_world_def)
  have 4: "config_transform sample_env = transform stub_engine"
    and 5: "\<forall>k op. write_error sample_env k op = None"
    and 6: "connect_error sample_env = None" and 7: "health_error sample_env = None"
    by (simp_all add: sample_env_def)
  have m: "listeners (run sample_env [] (fresh_world [id_only])) = [0]"
    using main_one_record[OF 4 5 6 7] by (simp add: run_def)
  then have "0 \<in> set (listeners (run sample_env [] (fresh_world [id_only])))" by simp
  with at_most_one_listener[OF 1 2, of sample_env "[]"]
  have "listeners (run sample_env ([] @ [StreamFailure 0 cursor_lost]) (fresh_world [id_only])) = [] \<and>
        timers (run sample_env ([] @ [StreamFailure 0 cursor_lost]) (fresh_world [id_only]))
          = [(10000, SyncCollection)]"
    by blast
  with m restart_one_record[OF 4 5 6 7, of cursor_lost] show ?thesis by simp
qed

text \<open>
  Claim C4. An \<^verbatim>\<open>error\<close> event on an attached change stream prints the error and sets
  one timer of 10000 milliseconds, and touches neither the index nor the collection.
  The listener has terminated: the failed stream is attached no more, and a later
  event on it changes nothing. The callback of the timer is \<^verbatim>\<open>syncCollection\<close> itself,
  the whole pipeline: when the timer fires (no other timer being set before it), and
  the transform throws on no record and no write fails, the collection is read again
  from offset 0 to its end, every transformed, non-skipped record is upserted again,
  and one new change stream is opened and attached.
\<close>

theorem stream_error_restarts_pipeline:
  assumes "s \<in> set (listeners w)" and "w1 = step e (StreamFailure s err) w"
  shows "console w1 = console w @ [ChangeStreamError err] \<and>
     timers w1 = timers w @ [(10000, SyncCollection)] \<and>
     page_reads w1 = page_reads w \<and> index_calls w1 = index_calls w \<and> index w1 = index w \<and>
     s \<notin> set (listeners w1) \<and>
     (\<forall>c. step e (Change s c) w1 = w1) \<and>
     (\<forall>err'. step e (StreamFailure s err') w1 = w1) \<and>
     (timers w = [] \<longrightarrow>
        step e TimerFires w1 = run_task e SyncCollection (w1\<lparr>timers := []\<rparr>)) \<and>
     (timers w = [] \<and> (\<forall>r\<in>set (source w). \<exists>v. config_transform e r = Inr v) \<and>
      (\<forall>k op. write_error e k op = None) \<longrightarrow>
        page_reads (step e TimerFires w1) = page_reads w @
           map (\<lambda>i. (i * batchSize, batchSize)) [0..<ceil_div (length (source w)) batchSize + 1] \<and>
        index (step e TimerFires w1) =
           fold upsert (non_skipped (config_transform e) (source w)) (index w) \<and>
        listeners (step e TimerFires w1) = removeAll s (listeners w) @ [opened w] \<and>
        opened (step e TimerFires w1) = Suc (opened w) \<and>
        timers (step e TimerFires w1) = [])"
proof -
  have w1: "w1 = stream_failure s err w" using assms by simp
  note sf = stream_failure_fields[of s err w]
  have f: "console w1 = console w @ [ChangeStreamError err]"
    "timers w1 = timers w @ [(10000, SyncCollection)]"
    "page_reads w1 = page_reads w" "index_calls w1 = index_calls w" "index w1 = index w"
    "source w1 = source w" "opened w1 = opened w" "listeners w1 = removeAll s (listeners w)"
    using sf unfolding w1 by simp_all
  have gone: "s \<notin> set (listeners w1)" using f(8) by simp
  have t: "step e TimerFires w1 = run_task e SyncCollection (w1\<lparr>timers := []\<rparr>)"
    if "timers w = []"
    using that f(2) by simp
  have full: "page_reads (step e TimerFires w1) = page_reads w @
           map (\<lambda>i. (i * batchSize, batchSize)) [0..<ceil_div (length (source w)) batchSize + 1] \<and>
        index (step e TimerFires w1) =
           fold upsert (non_skipped (config_transform e) (source w)) (index w) \<and>
        listeners (step e TimerFires w1) = removeAll s (listeners w) @ [opened w] \<and>
        opened (step e TimerFires w1) = Suc (opened w) \<and>
        timers (step e TimerFires w1) = []"
    if h: "timers w = []" "\<forall>r\<in>set (source w). \<exists>v. config_transform e r = Inr v"
      "\<forall>k op. write_error e k op = None"
  proof -
    let ?w = "w1\<lparr>timers := []\<rparr>"
    have "\<forall>r\<in>set (source ?w). \<exists>v. config_transform e r = Inr v"
      using h(2) f(6) by simp
    from syncCollection_completes[OF this h(3)] f t[OF h(1)] show ?thesis
      by (auto simp del: upt_Suc)
  qed
  from f(1-5) gone t full show ?thesis by simp
qed

text \<open>
  The theorem of C4 at a collection of one record: the failed stream is detached, one
  timer is set, and when it fires the collection is scanned a second time and a new
  stream is the only one attached.
\<close>

theorem stream_error_restarts_pipeline_witness:
  "0 \<notin> set (listeners (step sample_env (StreamFailure 0 cursor_lost)
       (main sample_env (fresh_world [id_only])))) \<and>
   timers (step sample_env (StreamFailure 0 cursor_lost) (main sample_env (fresh_world [id_only])))
     = [(10000, SyncCollection)] \<and>
   page_reads (step sample_env TimerFires
       (step sample_env (StreamFailure 0 cursor_lost) (main sample_env (fresh_world [id_only]))))
     = [(0, 5000), (5000, 5000), (0, 5000), (5000, 5000)] \<and>
   listeners (step sample_env TimerFires
       (step sample_env (StreamFailure 0 cursor_lost) (main sample_env (fresh_world [id_only]))))
     = [1]"
proof -
  let ?w = "main sample_env (fresh_world [id_only])"
  have 4: "config_transform sample_env = transform stub_engine"
    and 5: "\<forall>k op. write_error sample_env k op = None"
    and 6: "connect_error sample_env = None" and 7: "health_error sample_env = None"
    by (simp_all add: sample_env_def)
  note m = main_one_record[OF 4 5 6 7]
  have 1: "0 \<in> set (listeners ?w)" using m by simp
  have 2: "\<forall>r\<in>set (source ?w). \<exists>v. config_transform sample_env r = Inr v"
    using m 4 by (simp add: transform_id_only)
  have 3: "[0..<ceil_div (length (source ?w)) batchSize + 1] = [0, 1]"
    using m by (simp add: ceil_div_def batchSize_def upt_rec)
  let ?w1 = "step sample_env (StreamFailure 0 cursor_lost) ?w"
  note th = stream_error_restarts_pipeline[OF 1 refl, of sample_env cursor_lost]
  have t: "timers ?w = []" using m by simp
  from th have a: "timers ?w1 = timers ?w @ [(10000, SyncCollection)]"
    and g: "0 \<notin> set (listeners ?w1)"
    by blast+
  from th t 2 5 have b: "page_reads (step sample_env TimerFires ?w1) = page_reads ?w @
           map (\<lambda>i. (i * batchSize, batchSize)) [0..<ceil_div (length (source ?w)) batchSize + 1]"
    and l: "listeners (step sample_env TimerFires ?w1) = removeAll 0 (listeners ?w) @ [opened ?w]"
    by blast+
  have "timers ?w1 = [(10000, SyncCollection)]"
    unfolding a t by simp
  moreover have "page_reads (step sample_env TimerFires ?w1)
     = [(0, 5000), (5000, 5000), (0, 5000), (5000, 5000)]"
    unfolding b 3 using m by (simp add: batchSize_def)
  moreover have "listeners (step sample_env TimerFires ?w1) = [1]"
    unfolding l using m by simp
  ultimately show ?thesis using g by blast
qed


end
